theory Spec2Isabelle
  imports Main "HOL-Library.Word"
begin

unbundle bit_operations_syntax

chapter \<open>The driver, embedded\<close>

section \<open>Machine integer types of the driver\<close>

type_synonym uint8_t = "8 word"
type_synonym uint16_t = "16 word"
type_synonym uint32_t = "32 word"

text \<open>
  An \<open>int16_t\<close> argument is carried as a 16-bit word and read in two's complement
  with \<open>sint\<close> wherever the source uses its value.
\<close>

type_synonym int16_t = "16 word"

section \<open>Steve::Index: an index into a chip memory area, with wrapping\<close>

text \<open>
  \<open>template<const uint16_t max_value> class Index\<close> has the single field
  \<open>_index\<close>. The template argument is passed as the first argument
  of every operation. \<open>index\<close> is the accessor \<open>index()\<close>.
\<close>

datatype Index = Index_of (index: uint16_t)

text \<open>\<open>Wrap()\<close>: \<open>return _index &= (max_value - 1)\<close>.\<close>

definition Wrap :: "uint16_t \<Rightarrow> Index \<Rightarrow> Index" where
  "Wrap max_value i = Index_of (index i AND (max_value - 1))"

text \<open>The constructor stores the initial value and wraps it.\<close>

definition Index :: "uint16_t \<Rightarrow> uint16_t \<Rightarrow> Index" where
  "Index max_value initial_value = Wrap max_value (Index_of initial_value)"

text \<open>
  \<open>operator+=(int16_t value)\<close>: \<open>_index += value; Wrap()\<close>. Both operands are
  promoted, the sum is computed on their values and stored back into the 16-bit
  field, which keeps it modulo \<open>2 ^ 16\<close>.
\<close>

definition Index_add_assign :: "uint16_t \<Rightarrow> Index \<Rightarrow> int16_t \<Rightarrow> Index" where
  "Index_add_assign max_value i v =
     Wrap max_value (Index_of (word_of_int (uint (index i) + sint v)))"

text \<open>\<open>operator-=(int16_t value)\<close>: \<open>_index -= value; Wrap()\<close>.\<close>

definition Index_sub_assign :: "uint16_t \<Rightarrow> Index \<Rightarrow> int16_t \<Rightarrow> Index" where
  "Index_sub_assign max_value i v =
     Wrap max_value (Index_of (word_of_int (uint (index i) - sint v)))"

text \<open>
  \<open>operator+\<close> and \<open>operator-\<close> build a fresh index from the stored value and
  apply the in-place operator to it.
\<close>

definition Index_plus :: "uint16_t \<Rightarrow> Index \<Rightarrow> int16_t \<Rightarrow> Index" where
  "Index_plus max_value i v = Index_add_assign max_value (Index max_value (index i)) v"

definition Index_minus :: "uint16_t \<Rightarrow> Index \<Rightarrow> int16_t \<Rightarrow> Index" where
  "Index_minus max_value i v = Index_sub_assign max_value (Index max_value (index i)) v"

text \<open>A finite sequence of in-place additions and subtractions.\<close>

datatype index_op = AddAssign int16_t | SubAssign int16_t

fun apply_index_op :: "uint16_t \<Rightarrow> Index \<Rightarrow> index_op \<Rightarrow> Index" where
  "apply_index_op max_value i (AddAssign v) = Index_add_assign max_value i v"
| "apply_index_op max_value i (SubAssign v) = Index_sub_assign max_value i v"

definition run_index_ops :: "uint16_t \<Rightarrow> uint16_t \<Rightarrow> index_op list \<Rightarrow> Index" where
  "run_index_ops max_value seed ops = foldl (apply_index_op max_value) (Index max_value seed) ops"

text \<open>The signed amount an operation adds, as a mathematical integer.\<close>

fun signed_delta :: "index_op \<Rightarrow> int" where
  "signed_delta (AddAssign v) = sint v"
| "signed_delta (SubAssign v) = - sint v"

section \<open>SteveHAL: the hardware abstraction layer\<close>

text \<open>
  \<open>SteveHAL\<close> is an abstract class: \<open>Init\<close>, \<open>Pause\<close>, \<open>Power\<close>,
  \<open>Select\<close>, \<open>Transfer\<close> and \<open>Delay\<close> are pure virtual, everything else
  is built from them. The model records each call of a pure virtual function
  as an event, oldest first, and takes the byte the chip answers to the
  \<open>n\<close>-th \<open>Transfer\<close> from an arbitrary stream \<open>rx\<close>.
\<close>

datatype hal_event =
    EvInit bool
  | EvPause bool
  | EvPower bool
  | EvSelect bool
  | EvTransfer uint8_t
  | EvDelay uint32_t

record SteveHAL =
  events :: "hal_event list"
  rx :: "nat \<Rightarrow> uint8_t"
  transfers :: nat

definition emit :: "hal_event \<Rightarrow> SteveHAL \<Rightarrow> SteveHAL" where
  "emit e hal = hal\<lparr>events := events hal @ [e]\<rparr>"

definition Init :: "bool \<Rightarrow> SteveHAL \<Rightarrow> SteveHAL" where
  "Init slow hal = emit (EvInit slow) hal"

definition Pause :: "bool \<Rightarrow> SteveHAL \<Rightarrow> SteveHAL" where
  "Pause pause hal = emit (EvPause pause) hal"

definition Power :: "bool \<Rightarrow> SteveHAL \<Rightarrow> SteveHAL" where
  "Power enable hal = emit (EvPower enable) hal"

text \<open>The driver never looks at the result of \<open>Select\<close>.\<close>

definition Select :: "bool \<Rightarrow> SteveHAL \<Rightarrow> SteveHAL" where
  "Select enable hal = emit (EvSelect enable) hal"

definition Delay :: "uint32_t \<Rightarrow> SteveHAL \<Rightarrow> SteveHAL" where
  "Delay ms hal = emit (EvDelay ms) hal"

definition Transfer :: "uint8_t \<Rightarrow> SteveHAL \<Rightarrow> uint8_t \<times> SteveHAL" where
  "Transfer v hal =
     (rx hal (transfers hal),
      hal\<lparr>events := events hal @ [EvTransfer v], transfers := Suc (transfers hal)\<rparr>)"

definition Send8 :: "uint8_t \<Rightarrow> SteveHAL \<Rightarrow> SteveHAL" where
  "Send8 v hal = snd (Transfer v hal)"

text \<open>Little-endian: the least significant byte goes first.\<close>

definition Send16 :: "uint16_t \<Rightarrow> SteveHAL \<Rightarrow> SteveHAL" where
  "Send16 v hal = Send8 (ucast (drop_bit 8 v)) (Send8 (ucast v) hal)"

definition Send32 :: "uint32_t \<Rightarrow> SteveHAL \<Rightarrow> SteveHAL" where
  "Send32 v hal =
     Send8 (ucast (drop_bit 24 v))
       (Send8 (ucast (drop_bit 16 v))
         (Send8 (ucast (drop_bit 8 v))
           (Send8 (ucast v) hal)))"

definition Receive8 :: "SteveHAL \<Rightarrow> uint8_t \<times> SteveHAL" where
  "Receive8 hal = Transfer 0 hal"

definition Receive16 :: "SteveHAL \<Rightarrow> uint16_t \<times> SteveHAL" where
  "Receive16 hal =
     (let (b0, hal1) = Transfer 0 hal;
          (b1, hal2) = Transfer 0 hal1
      in (ucast b0 OR push_bit 8 (ucast b1), hal2))"

definition Receive32 :: "SteveHAL \<Rightarrow> uint32_t \<times> SteveHAL" where
  "Receive32 hal =
     (let (b0, hal1) = Transfer 0 hal;
          (b1, hal2) = Transfer 0 hal1;
          (b2, hal3) = Transfer 0 hal2;
          (b3, hal4) = Transfer 0 hal3
      in (ucast b0 OR push_bit 8 (ucast b1) OR push_bit 16 (ucast b2) OR push_bit 24 (ucast b3),
          hal4))"

subsection \<open>SendString\<close>

text \<open>
  The loop test \<open>result < maxlen - 1\<close> compares two \<open>uint16_t\<close> values after
  the usual arithmetic conversions, so its meaning depends on the width of
  \<open>int\<close> on the target. The repository is built for Arduino boards, where
  \<open>int\<close> has 16 bits on AVR and 32 bits elsewhere, and for Windows, where it
  has 32 bits. With a 16-bit \<open>int\<close> both operands become \<open>unsigned int\<close> and
  \<open>maxlen - 1\<close> wraps; with a wider \<open>int\<close> both become \<open>int\<close> and
  \<open>maxlen - 1\<close> is \<open>-1\<close> for \<open>maxlen = 0\<close>.
\<close>

datatype int_width = Int16 | Int32

definition below_maxlen_minus_1 :: "int_width \<Rightarrow> uint16_t \<Rightarrow> uint16_t \<Rightarrow> bool" where
  "below_maxlen_minus_1 w result maxlen =
     (case w of
        Int16 \<Rightarrow> result < maxlen - 1
      | Int32 \<Rightarrow> uint result < uint maxlen - 1)"

text \<open>
  A string is the list of the bytes at \<open>message\<close>; the byte that follows the
  listed ones is a terminating nul, so the string ends at the first zero of the
  list or at its end. \<open>None\<close> is the \<open>NULL\<close> pointer.
\<close>

fun SendString_loop ::
  "int_width \<Rightarrow> uint8_t list \<Rightarrow> uint16_t \<Rightarrow> uint16_t \<Rightarrow> SteveHAL \<Rightarrow> uint16_t \<times> SteveHAL" where
  "SendString_loop w [] maxlen result hal = (result, hal)"
| "SendString_loop w (c # s) maxlen result hal =
     (if below_maxlen_minus_1 w result maxlen then
        (if c = 0 then (result, hal)
         else SendString_loop w s maxlen (result + 1) (Send8 c hal))
      else (result, hal))"

definition SendString ::
  "int_width \<Rightarrow> uint8_t list option \<Rightarrow> uint16_t \<Rightarrow> SteveHAL \<Rightarrow> uint16_t \<times> SteveHAL" where
  "SendString w message maxlen hal =
     (let s = (case message of None \<Rightarrow> [] | Some m \<Rightarrow> m);
          (result, hal1) = SendString_loop w s maxlen 0 hal;
          hal2 = Send8 0 hal1
      in (result + 1, hal2))"

text \<open>The characters of a string before its terminating nul.\<close>

definition c_str :: "uint8_t list \<Rightarrow> uint8_t list" where
  "c_str s = takeWhile (\<lambda>c. c \<noteq> 0) s"

text \<open>
  The value \<open>maxlen - 1\<close> has in the loop test, as a count of characters:
  wrapped to 16 bits where \<open>int\<close> has 16 bits, and negative (no character
  passes the test) for \<open>maxlen = 0\<close> where \<open>int\<close> is wider.
\<close>

definition loop_bound :: "int_width \<Rightarrow> uint16_t \<Rightarrow> nat" where
  "loop_bound w maxlen = (case w of Int16 \<Rightarrow> unat (maxlen - 1) | Int32 \<Rightarrow> unat maxlen - 1)"

text \<open>A transport on which nothing has happened yet and that answers zeros.\<close>

definition idle_hal :: SteveHAL where
  "idle_hal = \<lparr>events = [], rx = (\<lambda>n. 0), transfers = 0\<rparr>"

section \<open>SteveDisplay: display parameters\<close>

record SteveDisplay =
  clkext :: bool
  clksel :: uint8_t
  chipid :: uint32_t
  frequency :: uint32_t
  lcd10ma :: bool
  cspread :: bool
  dither :: bool
  outbits :: uint16_t
  hsize :: uint16_t
  hcycle :: uint16_t
  hoffset :: uint16_t
  hsync0 :: uint16_t
  hsync1 :: uint16_t
  vsize :: uint16_t
  vcycle :: uint16_t
  voffset :: uint16_t
  vsync0 :: uint16_t
  vsync1 :: uint16_t
  swizzle :: uint8_t
  pclkpol :: uint8_t
  pclk :: uint8_t
  pindrivetable :: "uint8_t list option"

definition CLKSEL_DEFAULT :: uint8_t where "CLKSEL_DEFAULT = 0x00"

definition CHIPID_ANY :: uint32_t where "CHIPID_ANY = 0"

definition CHIPID_BT817 :: uint32_t where "CHIPID_BT817 = 0x00011708"

text \<open>
  The constructor. Each timing value is a sum of \<open>uint16_t\<close> arguments stored
  into a \<open>uint16_t\<close> field, which keeps the sum modulo \<open>2 ^ 16\<close>.
\<close>

definition SteveDisplay_new ::
  "uint16_t \<Rightarrow> uint16_t \<Rightarrow> uint16_t \<Rightarrow> uint16_t \<Rightarrow> uint16_t \<Rightarrow>
   uint16_t \<Rightarrow> uint16_t \<Rightarrow> uint16_t \<Rightarrow> uint16_t \<Rightarrow> uint16_t \<Rightarrow>
   uint8_t \<Rightarrow> uint8_t \<Rightarrow> uint8_t \<Rightarrow> SteveDisplay" where
  "SteveDisplay_new width hfrontporch hsyncwidth hbackporch hpadding
       height vfrontporch vsyncheight vbackporch vpadding pclk_arg pclkpol_arg swizzle_arg =
     \<lparr> clkext = False,
       clksel = CLKSEL_DEFAULT,
       chipid = CHIPID_ANY,
       frequency = 0,
       lcd10ma = False,
       cspread = False,
       dither = False,
       outbits = 0,
       hsize = width,
       hcycle = word_of_int (uint hfrontporch + uint hsyncwidth + uint hbackporch + uint width + uint hpadding),
       hoffset = word_of_int (uint hfrontporch + uint hsyncwidth + uint hbackporch),
       hsync0 = hfrontporch,
       hsync1 = word_of_int (uint hfrontporch + uint hsyncwidth),
       vsize = height,
       vcycle = word_of_int (uint vfrontporch + uint vsyncheight + uint vbackporch + uint height + uint vpadding),
       voffset = word_of_int (uint vfrontporch + uint vsyncheight + uint vbackporch),
       vsync0 = vfrontporch,
       vsync1 = word_of_int (uint vfrontporch + uint vsyncheight),
       swizzle = swizzle_arg,
       pclkpol = pclkpol_arg,
       pclk = pclk_arg,
       pindrivetable = None \<rparr>"

section \<open>Steve: constants\<close>

definition RAM_DL :: uint32_t where "RAM_DL = 0x300000"
definition RAM_CMD :: uint32_t where "RAM_CMD = 0x308000"
definition RAM_DL_SIZE :: uint32_t where "RAM_DL_SIZE = 8 * 1024"
definition RAM_CMD_SIZE :: uint32_t where "RAM_CMD_SIZE = 4 * 1024"

text \<open>Pseudo index that reports an error during a co-processor command.\<close>

definition READ_INDEX_ERROR :: uint16_t where "READ_INDEX_ERROR = 0x0FFF"

definition HOSTCMD_ACTIVE :: uint32_t where "HOSTCMD_ACTIVE = 0x000000"
definition HOSTCMD_READ :: uint32_t where "HOSTCMD_READ = 0x000000"
definition HOSTCMD_CLKEXT :: uint32_t where "HOSTCMD_CLKEXT = 0x440000"
definition HOSTCMD_CLKINT :: uint32_t where "HOSTCMD_CLKINT = 0x480000"
definition HOSTCMD_CLKSEL :: uint32_t where "HOSTCMD_CLKSEL = 0x610000"
definition HOSTCMD_PINDRIVE :: uint32_t where "HOSTCMD_PINDRIVE = 0x700000"
definition HOSTCMD_WRITE :: uint32_t where "HOSTCMD_WRITE = 0x800000"

definition REG_ID :: uint32_t where "REG_ID = 0x302000"
definition REG_FREQUENCY :: uint32_t where "REG_FREQUENCY = 0x30200C"
definition REG_CPURESET :: uint32_t where "REG_CPURESET = 0x302020"
definition REG_HCYCLE :: uint32_t where "REG_HCYCLE = 0x30202C"
definition REG_HOFFSET :: uint32_t where "REG_HOFFSET = 0x302030"
definition REG_HSIZE :: uint32_t where "REG_HSIZE = 0x302034"
definition REG_HSYNC0 :: uint32_t where "REG_HSYNC0 = 0x302038"
definition REG_HSYNC1 :: uint32_t where "REG_HSYNC1 = 0x30203C"
definition REG_VCYCLE :: uint32_t where "REG_VCYCLE = 0x302040"
definition REG_VOFFSET :: uint32_t where "REG_VOFFSET = 0x302044"
definition REG_VSIZE :: uint32_t where "REG_VSIZE = 0x302048"
definition REG_VSYNC0 :: uint32_t where "REG_VSYNC0 = 0x30204C"
definition REG_VSYNC1 :: uint32_t where "REG_VSYNC1 = 0x302050"
definition REG_DLSWAP :: uint32_t where "REG_DLSWAP = 0x302054"
definition REG_OUTBITS :: uint32_t where "REG_OUTBITS = 0x30205C"
definition REG_DITHER :: uint32_t where "REG_DITHER = 0x302060"
definition REG_SWIZZLE :: uint32_t where "REG_SWIZZLE = 0x302064"
definition REG_CSPREAD :: uint32_t where "REG_CSPREAD = 0x302068"
definition REG_PCLK_POL :: uint32_t where "REG_PCLK_POL = 0x30206C"
definition REG_PCLK :: uint32_t where "REG_PCLK = 0x302070"
definition REG_GPIOX :: uint32_t where "REG_GPIOX = 0x30209C"
definition REG_PWM_HZ :: uint32_t where "REG_PWM_HZ = 0x3020D0"
definition REG_PWM_DUTY :: uint32_t where "REG_PWM_DUTY = 0x3020D4"
definition REG_CMD_READ :: uint32_t where "REG_CMD_READ = 0x3020F8"
definition REG_CMD_WRITE :: uint32_t where "REG_CMD_WRITE = 0x3020FC"
definition REG_TOUCH_MODE :: uint32_t where "REG_TOUCH_MODE = 0x302104"
definition REG_TOUCH_RZTHRESH :: uint32_t where "REG_TOUCH_RZTHRESH = 0x302118"
definition REG_CHIP_ID :: uint32_t where "REG_CHIP_ID = 0x0C0000"

definition ENC_CMD_DISPLAY :: uint32_t where "ENC_CMD_DISPLAY = 0x00000000"
definition ENC_CMD_CLEAR_COLOR :: uint32_t where "ENC_CMD_CLEAR_COLOR = 0x02000000"
definition ENC_CMD_CLEAR :: uint32_t where "ENC_CMD_CLEAR = 0x26000000"
definition ENC_CMD_CALIBRATE :: uint32_t where "ENC_CMD_CALIBRATE = 0xFFFFFF15"
definition ENC_CMD_MEMCRC :: uint32_t where "ENC_CMD_MEMCRC = 0xFFFFFF18"
definition ENC_CMD_GETPTR :: uint32_t where "ENC_CMD_GETPTR = 0xFFFFFF23"
definition ENC_CMD_GETPROPS :: uint32_t where "ENC_CMD_GETPROPS = 0xFFFFFF25"
definition ENC_CMD_CALIBRATESUB :: uint32_t where "ENC_CMD_CALIBRATESUB = 0xFFFFFF60"

definition DLSWAP_FRAME :: uint32_t where "DLSWAP_FRAME = 0x2"

text \<open>
  \<open>CmdIndex\<close> is \<open>Index<RAM_CMD_SIZE>\<close> and \<open>DLIndex\<close> is
  \<open>Index<RAM_DL_SIZE>\<close>; the template argument is the size converted to
  \<open>uint16_t\<close>.
\<close>

definition CmdIndex_max :: uint16_t where "CmdIndex_max = ucast RAM_CMD_SIZE"
definition DLIndex_max :: uint16_t where "DLIndex_max = ucast RAM_DL_SIZE"

section \<open>Steve: state\<close>

text \<open>
  The data members that change: the transport \<open>_hal\<close>, the command write
  index \<open>_cmd_index\<close> and the display list write index \<open>_dl_index\<close>. The
  profile is constant and is passed to the functions that read it.
\<close>

record Steve =
  m_hal :: SteveHAL
  m_cmd_index :: Index
  m_dl_index :: Index

section \<open>Steve: transactions and memory operations\<close>

text \<open>These member functions touch nothing but the transport.\<close>

definition EndTransaction :: "SteveHAL \<Rightarrow> SteveHAL" where
  "EndTransaction h = Select False h"

text \<open>The lower three bytes of the 24-bit value go out in big-endian order.\<close>

definition BeginTransaction :: "uint32_t \<Rightarrow> SteveHAL \<Rightarrow> SteveHAL" where
  "BeginTransaction data24 h =
     Send8 (ucast data24)
       (Send8 (ucast (drop_bit 8 data24))
         (Send8 (ucast (drop_bit 16 data24))
           (Select True (EndTransaction h))))"

definition BeginMemoryTransaction :: "uint32_t \<Rightarrow> bool \<Rightarrow> SteveHAL \<Rightarrow> SteveHAL" where
  "BeginMemoryTransaction address22 write h =
     (let h1 = BeginTransaction ((if write then HOSTCMD_WRITE else HOSTCMD_READ) OR address22) h
      in if \<not> write then Send8 0 h1 else h1)"

definition HostCommand :: "uint32_t \<Rightarrow> uint8_t \<Rightarrow> SteveHAL \<Rightarrow> SteveHAL" where
  "HostCommand hostcmd parameter h = BeginTransaction (hostcmd OR push_bit 8 (ucast parameter)) h"

definition RegRead8 :: "uint32_t \<Rightarrow> SteveHAL \<Rightarrow> uint8_t \<times> SteveHAL" where
  "RegRead8 address22 h = Receive8 (BeginMemoryTransaction address22 False h)"

definition RegRead16 :: "uint32_t \<Rightarrow> SteveHAL \<Rightarrow> uint16_t \<times> SteveHAL" where
  "RegRead16 address22 h = Receive16 (BeginMemoryTransaction address22 False h)"

definition RegRead32 :: "uint32_t \<Rightarrow> SteveHAL \<Rightarrow> uint32_t \<times> SteveHAL" where
  "RegRead32 address22 h = Receive32 (BeginMemoryTransaction address22 False h)"

text \<open>
  \<open>RegWait8\<close>: the loop \<open>while (result)\<close> reads the register, decrements
  \<open>result\<close>, returns \<open>result\<close> on a match and delays otherwise.
\<close>

function RegWait8_loop ::
  "uint32_t \<Rightarrow> uint8_t \<Rightarrow> uint32_t \<Rightarrow> uint8_t \<Rightarrow> SteveHAL \<Rightarrow> uint8_t \<times> SteveHAL" where
  "RegWait8_loop address22 v delay_between_tries result h =
     (if result = 0 then (result, h)
      else
        (let (read_value, h1) = RegRead8 address22 h;
             result1 = result - 1
         in if read_value = v then (result1, h1)
            else RegWait8_loop address22 v delay_between_tries result1 (Delay delay_between_tries h1)))"
  by pat_completeness auto
termination
proof (relation "measure (\<lambda>(address22, v, delay_between_tries, result, h). unat result)")
  show "wf (measure (\<lambda>(address22, v, delay_between_tries, result, h). unat result))"
    by simp
next
  fix address22 :: uint32_t and v :: uint8_t and delay_between_tries :: uint32_t
    and result :: uint8_t and h :: SteveHAL and x :: "uint8_t \<times> SteveHAL"
    and read_value :: uint8_t and h1 :: SteveHAL and result1 :: uint8_t
  assume "result \<noteq> 0" and "result1 = result - 1"
  then have "unat result1 < unat result"
    by (simp add: unat_minus_one unat_gt_0)
  then show "((address22, v, delay_between_tries, result1, Delay delay_between_tries h1),
              (address22, v, delay_between_tries, result, h))
             \<in> measure (\<lambda>(address22, v, delay_between_tries, result, h). unat result)"
    by simp
qed

declare RegWait8_loop.simps [simp del]

definition RegWait8 ::
  "uint32_t \<Rightarrow> uint8_t \<Rightarrow> uint8_t \<Rightarrow> uint32_t \<Rightarrow> SteveHAL \<Rightarrow> uint8_t \<times> SteveHAL" where
  "RegWait8 address22 v maxtries delay_between_tries h =
     RegWait8_loop address22 v delay_between_tries maxtries h"

definition RegWrite8 :: "uint32_t \<Rightarrow> uint8_t \<Rightarrow> SteveHAL \<Rightarrow> SteveHAL" where
  "RegWrite8 address22 v h = Send8 v (BeginMemoryTransaction address22 True h)"

definition RegWrite16 :: "uint32_t \<Rightarrow> uint16_t \<Rightarrow> SteveHAL \<Rightarrow> SteveHAL" where
  "RegWrite16 address22 v h = Send16 v (BeginMemoryTransaction address22 True h)"

definition RegWrite32 :: "uint32_t \<Rightarrow> uint32_t \<Rightarrow> SteveHAL \<Rightarrow> SteveHAL" where
  "RegWrite32 address22 v h = Send32 v (BeginMemoryTransaction address22 True h)"

section \<open>Steve: display list and co-processor support\<close>

definition DLAdd :: "uint32_t \<Rightarrow> Steve \<Rightarrow> Index \<times> Steve" where
  "DLAdd v st =
     (let h = RegWrite32 (RAM_DL + ucast (index (m_dl_index st))) v (m_hal st);
          d = Index_add_assign DLIndex_max (m_dl_index st) 4
      in (d, st\<lparr>m_hal := h, m_dl_index := d\<rparr>))"

definition CmdInitWriteIndex :: "Steve \<Rightarrow> Index \<times> Steve" where
  "CmdInitWriteIndex st =
     (let (v, h) = RegRead16 REG_CMD_WRITE (m_hal st);
          c = Index CmdIndex_max v
      in (c, st\<lparr>m_hal := h, m_cmd_index := c\<rparr>))"

text \<open>
  \<open>CmdGetFreeCmdSpace\<close>: the used space is the wrapped difference of the write
  index and the register value; the result is \<open>(RAM_CMD_SIZE - 4) - used_space\<close>,
  computed in 32 bits and stored into a \<open>uint16_t\<close>.
\<close>

definition CmdGetFreeCmdSpace :: "Steve \<Rightarrow> uint16_t \<times> Steve" where
  "CmdGetFreeCmdSpace st =
     (let (r, h) = RegRead16 REG_CMD_READ (m_hal st);
          used_space = index (Index_minus CmdIndex_max (m_cmd_index st) r);
          result = (ucast ((RAM_CMD_SIZE - 4) - ucast used_space) :: uint16_t)
      in (result, st\<lparr>m_hal := h\<rparr>))"

definition Cmd :: "uint32_t \<Rightarrow> Steve \<Rightarrow> Index \<times> Steve" where
  "Cmd command st =
     (let h = Send32 command
                (BeginMemoryTransaction (RAM_CMD + ucast (index (m_cmd_index st))) True (m_hal st));
          c = Index_add_assign CmdIndex_max (m_cmd_index st) 4
      in (c, st\<lparr>m_hal := h, m_cmd_index := c\<rparr>))"

text \<open>
  \<open>CmdIsBusy(bool *pError = NULL)\<close>. The first argument says whether
  \<open>pError\<close> is a non-null pointer; the second component of the result is what
  is stored through it, \<open>None\<close> when nothing is stored.
\<close>

definition CmdIsBusy :: "bool \<Rightarrow> Steve \<Rightarrow> (bool \<times> bool option) \<times> Steve" where
  "CmdIsBusy pError st =
     (let (readindex, h) = RegRead16 REG_CMD_READ (m_hal st);
          error = (readindex = READ_INDEX_ERROR)
      in ((\<not> error \<and> readindex \<noteq> index (m_cmd_index st),
           if pError then Some error else None),
          st\<lparr>m_hal := h\<rparr>))"

section \<open>Co-processor commands generated by the CMD macro\<close>

text \<open>
  The macro \<open>CMD(name, declaration, value)\<close> expands to
  \<open>Cmd(ENC_CMD_name); int16_t result = 0; (void)(value); return _cmd_index += result;\<close>
  where \<open>value\<close> is a comma expression of the field macros, evaluated left to
  right. Every command with an output slot (\<open>MEMCRC\<close>, \<open>GETMATRIX\<close>,
  \<open>GETPTR\<close>, \<open>GETPROPS\<close>, \<open>CALIBRATE\<close>, \<open>CALIBRATESUB\<close>,
  \<open>FLASHFAST\<close>, \<open>BITMAP_TRANSFORM\<close>, \<open>FONTCACHEQUERY\<close>, \<open>GETIMAGE\<close>
  and \<open>PCLKFREQ\<close>) is built from these three field macros only:
  \<^item> \<open>V2(value)\<close>: \<open>_hal.Send16(value), result += 2\<close>;
  \<^item> \<open>V4(value)\<close>: \<open>_hal.Send32(value), result += 4\<close>;
  \<^item> \<open>Q4(name)\<close>: \<open>(name ? (*name = _cmd_index + result) : 0), V4(0)\<close>.
  The argument of \<open>Q4\<close> says whether the \<open>CmdIndex\<close> pointer is non-null.
  The evaluation threads the transport, \<open>result\<close> and one entry per field
  for what was stored through its pointer.
\<close>

datatype cmd_field = V2 uint16_t | V4 uint32_t | Q4 bool

fun cmd_field_step ::
  "Index \<Rightarrow> SteveHAL \<times> int16_t \<times> Index option list \<Rightarrow> cmd_field
     \<Rightarrow> SteveHAL \<times> int16_t \<times> Index option list" where
  "cmd_field_step ci (h, result, outs) (V2 v) = (Send16 v h, result + 2, outs @ [None])"
| "cmd_field_step ci (h, result, outs) (V4 v) = (Send32 v h, result + 4, outs @ [None])"
| "cmd_field_step ci (h, result, outs) (Q4 name) =
     (Send32 0 h, result + 4,
      outs @ [if name then Some (Index_plus CmdIndex_max ci result) else None])"

definition CMD :: "uint32_t \<Rightarrow> cmd_field list \<Rightarrow> Steve \<Rightarrow> (Index \<times> Index option list) \<times> Steve" where
  "CMD enc_cmd fs st =
     (let st1 = snd (Cmd enc_cmd st);
          (h, result, outs) = foldl (cmd_field_step (m_cmd_index st1)) (m_hal st1, 0, []) fs;
          c = Index_add_assign CmdIndex_max (m_cmd_index st1) result
      in ((c, outs), st1\<lparr>m_hal := h, m_cmd_index := c\<rparr>))"

definition cmd_MEMCRC :: "uint32_t \<Rightarrow> uint32_t \<Rightarrow> bool \<Rightarrow> Steve \<Rightarrow> (Index \<times> Index option list) \<times> Steve" where
  "cmd_MEMCRC ptr32 num32 xresult32 = CMD ENC_CMD_MEMCRC [V4 ptr32, V4 num32, Q4 xresult32]"

definition cmd_GETPTR :: "bool \<Rightarrow> Steve \<Rightarrow> (Index \<times> Index option list) \<times> Steve" where
  "cmd_GETPTR xptr = CMD ENC_CMD_GETPTR [Q4 xptr]"

definition cmd_GETPROPS :: "bool \<Rightarrow> bool \<Rightarrow> bool \<Rightarrow> Steve \<Rightarrow> (Index \<times> Index option list) \<times> Steve" where
  "cmd_GETPROPS xptr32 xwidth32 xheight32 = CMD ENC_CMD_GETPROPS [Q4 xptr32, Q4 xwidth32, Q4 xheight32]"

definition cmd_CALIBRATE :: "bool \<Rightarrow> Steve \<Rightarrow> (Index \<times> Index option list) \<times> Steve" where
  "cmd_CALIBRATE xresult32 = CMD ENC_CMD_CALIBRATE [Q4 xresult32]"

definition cmd_CALIBRATESUB ::
  "uint16_t \<Rightarrow> uint16_t \<Rightarrow> uint16_t \<Rightarrow> uint16_t \<Rightarrow> bool \<Rightarrow> Steve \<Rightarrow> (Index \<times> Index option list) \<times> Steve" where
  "cmd_CALIBRATESUB x16 y16 w16 h16 xresult32 =
     CMD ENC_CMD_CALIBRATESUB [V2 x16, V2 y16, V2 w16, V2 h16, Q4 xresult32]"

text \<open>The number of bytes a field puts on the wire.\<close>

fun field_bytes :: "cmd_field \<Rightarrow> nat" where
  "field_bytes (V2 v) = 2"
| "field_bytes (V4 v) = 4"
| "field_bytes (Q4 name) = 4"

text \<open>
  The bytes a field puts on the wire, and the bytes of a whole command record:
  the command word, then the fields.
\<close>

fun field_wire :: "cmd_field \<Rightarrow> uint8_t list" where
  "field_wire (V2 v) = [ucast v, ucast (drop_bit 8 v)]"
| "field_wire (V4 v) = [ucast v, ucast (drop_bit 8 v), ucast (drop_bit 16 v), ucast (drop_bit 24 v)]"
| "field_wire (Q4 name) = [0, 0, 0, 0]"

definition record_bytes :: "uint32_t \<Rightarrow> cmd_field list \<Rightarrow> uint8_t list" where
  "record_bytes enc_cmd fs =
     [ucast enc_cmd, ucast (drop_bit 8 enc_cmd), ucast (drop_bit 16 enc_cmd), ucast (drop_bit 24 enc_cmd)]
     @ concat (map field_wire fs)"

text \<open>
  What a field stores through its pointer when \<open>result\<close> has the given
  value, and the list of these for a run of fields.
\<close>

fun field_out :: "Index \<Rightarrow> int16_t \<Rightarrow> cmd_field \<Rightarrow> Index option" where
  "field_out ci result (Q4 name) = (if name then Some (Index_plus CmdIndex_max ci result) else None)"
| "field_out ci result f = None"

fun field_outs :: "Index \<Rightarrow> int16_t \<Rightarrow> cmd_field list \<Rightarrow> Index option list" where
  "field_outs ci result [] = []"
| "field_outs ci result (f # fs) = field_out ci result f # field_outs ci (result + of_nat (field_bytes f)) fs"

text \<open>The bytes that open the memory write transaction of a command at index w.\<close>

definition cmd_transaction :: "Index \<Rightarrow> hal_event list" where
  "cmd_transaction w =
     [EvSelect False, EvSelect True,
      EvTransfer (ucast (drop_bit 16 (HOSTCMD_WRITE OR (RAM_CMD + ucast (index w))))),
      EvTransfer (ucast (drop_bit 8 (HOSTCMD_WRITE OR (RAM_CMD + ucast (index w))))),
      EvTransfer (ucast (HOSTCMD_WRITE OR (RAM_CMD + ucast (index w))))]"

section \<open>Steve: initialization\<close>

text \<open>
  The macro \<open>N(value, leftbit, rightbit)\<close> is
  \<open>(((uint32_t)value) & ((1 << (leftbit - rightbit + 1)) - 1)) << rightbit\<close>.
  The three display list commands that \<open>Begin\<close> writes use fields of at most
  24 bits.
\<close>

definition N :: "uint32_t \<Rightarrow> nat \<Rightarrow> nat \<Rightarrow> uint32_t" where
  "N v leftbit rightbit = push_bit rightbit (v AND (push_bit (leftbit - rightbit + 1) 1 - 1))"

definition ENC_CLEAR_COLOR :: "uint32_t \<Rightarrow> uint32_t" where
  "ENC_CLEAR_COLOR rgb24 = ENC_CMD_CLEAR_COLOR OR N rgb24 23 0"

definition ENC_CLEAR :: "uint8_t \<Rightarrow> uint8_t \<Rightarrow> uint8_t \<Rightarrow> uint32_t" where
  "ENC_CLEAR color1 stencil1 tag1 =
     ENC_CMD_CLEAR OR N (ucast color1) 2 2 OR N (ucast stencil1) 1 1 OR N (ucast tag1) 0 0"

definition ENC_DISPLAY :: uint32_t where
  "ENC_DISPLAY = ENC_CMD_DISPLAY OR 0"

definition dl_CLEAR_COLOR :: "uint32_t \<Rightarrow> Steve \<Rightarrow> Index \<times> Steve" where
  "dl_CLEAR_COLOR rgb24 st = DLAdd (ENC_CLEAR_COLOR rgb24) st"

definition dl_CLEAR :: "uint8_t \<Rightarrow> uint8_t \<Rightarrow> uint8_t \<Rightarrow> Steve \<Rightarrow> Index \<times> Steve" where
  "dl_CLEAR color1 stencil1 tag1 st = DLAdd (ENC_CLEAR color1 stencil1 tag1) st"

definition dl_DISPLAY :: "Steve \<Rightarrow> Index \<times> Steve" where
  "dl_DISPLAY st = DLAdd ENC_DISPLAY st"

text \<open>
  \<open>Steve::Pause\<close> pauses the transport and de-selects the chip; \<open>End\<close>
  pauses, waits, powers down and waits.
\<close>

definition Steve_Pause :: "bool \<Rightarrow> SteveHAL \<Rightarrow> SteveHAL" where
  "Steve_Pause pause h = (let h1 = Pause pause h in if pause then Select False h1 else h1)"

definition End :: "SteveHAL \<Rightarrow> SteveHAL" where
  "End h = Delay 6 (Power False (Delay 20 (Steve_Pause True h)))"

text \<open>
  The virtual functions \<open>EarlyInit\<close> and \<open>TouchInit\<close>, as the class
  \<open>Steve\<close> implements them. No class of the repository overrides them.
\<close>

definition EarlyInit :: "Steve \<Rightarrow> bool \<times> Steve" where
  "EarlyInit st = (True, st)"

definition TouchInit :: "Steve \<Rightarrow> bool \<times> Steve" where
  "TouchInit st =
     (True, st\<lparr>m_hal := RegWrite16 REG_TOUCH_RZTHRESH 0 (RegWrite8 REG_TOUCH_MODE 0 (m_hal st))\<rparr>)"

text \<open>
  The pin drive table is the list of the bytes at \<open>_pindrivetable\<close>; the loop
  stops at the first \<open>0xFF\<close>. The macros that build a table always end it with
  \<open>0xFF\<close>; a list without one is read as if \<open>0xFF\<close> followed it.
\<close>

fun pindrive_loop :: "uint8_t list \<Rightarrow> SteveHAL \<Rightarrow> SteveHAL" where
  "pindrive_loop [] h = h"
| "pindrive_loop (p # ps) h =
     (if p = 0xFF then h else pindrive_loop ps (HostCommand HOSTCMD_PINDRIVE p h))"

text \<open>
  \<open>Begin\<close>, in the order of the source. \<open>Begin_wake\<close> runs from \<open>End()\<close> to
  the switch to fast mode; \<open>Begin_chip_id\<close> is the chip identifier block, its
  flag saying whether \<open>Begin\<close> goes on; \<open>Begin_registers\<close> runs from the write
  of \<open>REG_PCLK\<close> to the write of \<open>REG_OUTBITS\<close>; \<open>Begin_show\<close> runs from
  \<open>_dl_index = 0\<close> to the end.
\<close>

definition Begin_wake :: "SteveDisplay \<Rightarrow> SteveHAL \<Rightarrow> SteveHAL" where
  "Begin_wake profile h0 =
     (let h = End h0;
          h = Power True h;
          h = Delay 21 h;
          h = Select True h;
          h = Init True h;
          h = (if clkext profile then HostCommand HOSTCMD_CLKEXT 0 h
               else HostCommand HOSTCMD_CLKINT 0 h);
          h = HostCommand HOSTCMD_CLKSEL (clksel profile) h;
          h = HostCommand HOSTCMD_ACTIVE 0 h;
          h = Delay 40 h
      in Init False h)"

definition Begin_chip_id :: "SteveDisplay \<Rightarrow> SteveHAL \<Rightarrow> bool \<times> SteveHAL" where
  "Begin_chip_id profile h =
     (if chipid profile \<noteq> CHIPID_ANY then
        (let (chip_id, h1) = RegRead32 REG_CHIP_ID h
         in if chipid profile \<noteq> chip_id then (False, h1) else (True, h1))
      else (True, h))"

definition Begin_registers :: "SteveDisplay \<Rightarrow> SteveHAL \<Rightarrow> SteveHAL" where
  "Begin_registers profile h0 =
     (let h = RegWrite8 REG_PCLK 0 h0;
          h = RegWrite8 REG_PWM_DUTY 0 h;
          h = RegWrite16 REG_HSIZE (hsize profile) h;
          h = RegWrite16 REG_HCYCLE (hcycle profile) h;
          h = RegWrite16 REG_HOFFSET (hoffset profile) h;
          h = RegWrite16 REG_HSYNC0 (hsync0 profile) h;
          h = RegWrite16 REG_HSYNC1 (hsync1 profile) h;
          h = RegWrite16 REG_VSIZE (vsize profile) h;
          h = RegWrite16 REG_VCYCLE (vcycle profile) h;
          h = RegWrite16 REG_VOFFSET (voffset profile) h;
          h = RegWrite16 REG_VSYNC0 (vsync0 profile) h;
          h = RegWrite16 REG_VSYNC1 (vsync1 profile) h;
          h = RegWrite8 REG_SWIZZLE (swizzle profile) h;
          h = RegWrite8 REG_PCLK_POL (pclkpol profile) h;
          (gpiox, h) = RegRead16 REG_GPIOX h;
          h = (if lcd10ma profile then RegWrite16 REG_GPIOX (gpiox OR 0x1000) h
               else RegWrite16 REG_GPIOX (gpiox AND NOT 0x1000) h);
          h = (case pindrivetable profile of None \<Rightarrow> h | Some table \<Rightarrow> pindrive_loop table h);
          h = RegWrite8 REG_CSPREAD (if cspread profile then 1 else 0) h;
          h = RegWrite8 REG_DITHER (if dither profile then 1 else 0) h
      in if outbits profile \<noteq> 0 then RegWrite16 REG_OUTBITS (outbits profile) h else h)"

definition Begin_show :: "SteveDisplay \<Rightarrow> Steve \<Rightarrow> Steve" where
  "Begin_show profile st0 =
     (let st = st0\<lparr>m_dl_index := Index DLIndex_max 0\<rparr>;
          st = snd (dl_CLEAR_COLOR 0 st);
          st = snd (dl_CLEAR 1 1 1 st);
          st = snd (dl_DISPLAY st);
          h = RegWrite32 REG_DLSWAP DLSWAP_FRAME (m_hal st);
          (gpiox, h) = RegRead16 REG_GPIOX h;
          h = RegWrite16 REG_GPIOX (gpiox OR 0x8000) h;
          h = RegWrite8 REG_PCLK (pclk profile) h;
          h = RegWrite16 REG_PWM_HZ 300 h;
          h = RegWrite8 REG_PWM_DUTY 32 h
      in st\<lparr>m_hal := h\<rparr>)"

text \<open>
  \<open>Begin\<close> returns \<open>false\<close> at five places and \<open>true\<close> at its end. The
  model names the place; \<open>Begin_returns\<close> is the \<open>bool\<close> the caller gets.
\<close>

datatype begin_exit =
    ExitIdTimeout
  | ExitCpuResetTimeout
  | ExitChipIdMismatch
  | ExitEarlyInit
  | ExitTouchInit
  | ExitSuccess

definition Begin :: "SteveDisplay \<Rightarrow> Steve \<Rightarrow> begin_exit \<times> Steve" where
  "Begin profile st0 =
     (let h = Begin_wake profile (m_hal st0);
          (r, h) = RegWait8 REG_ID 0x7C 250 1 h
      in if r = 0 then (ExitIdTimeout, st0\<lparr>m_hal := h\<rparr>)
         else
           (let (r, h) = RegWait8 REG_CPURESET 0 250 1 h
            in if r = 0 then (ExitCpuResetTimeout, st0\<lparr>m_hal := h\<rparr>)
               else
                 (let (id_ok, h) = Begin_chip_id profile h
                  in if \<not> id_ok then (ExitChipIdMismatch, st0\<lparr>m_hal := h\<rparr>)
                     else
                       (let h = (if frequency profile \<noteq> 0
                                 then RegWrite32 REG_FREQUENCY (frequency profile) h else h);
                            st = snd (CmdInitWriteIndex (st0\<lparr>m_hal := h\<rparr>));
                            (ok, st) = EarlyInit st
                        in if \<not> ok then (ExitEarlyInit, st)
                           else
                             (let st = st\<lparr>m_hal := Begin_registers profile (m_hal st)\<rparr>;
                                  (ok, st) = TouchInit st
                              in if \<not> ok then (ExitTouchInit, st)
                                 else (ExitSuccess, Begin_show profile st))))))"

definition Begin_returns :: "begin_exit \<Rightarrow> bool" where
  "Begin_returns e = (e = ExitSuccess)"

section \<open>Transactions as seen on the wire\<close>

text \<open>
  A transaction starts where the chip is selected and three bytes follow at
  once: they are its 24-bit header, most significant byte first. A read of the
  chip identifier register has the header of \<open>HOSTCMD_READ | REG_CHIP_ID\<close>.
\<close>

fun header_at :: "hal_event list \<Rightarrow> (uint8_t \<times> uint8_t \<times> uint8_t) option" where
  "header_at (EvSelect True # EvTransfer a # EvTransfer b # EvTransfer c # es) = Some (a, b, c)"
| "header_at es = None"

fun headers :: "hal_event list \<Rightarrow> (uint8_t \<times> uint8_t \<times> uint8_t) list" where
  "headers [] = []"
| "headers (e # es) =
     (case header_at (e # es) of Some x \<Rightarrow> x # headers es | None \<Rightarrow> headers es)"

definition is_chip_id_read :: "uint8_t \<times> uint8_t \<times> uint8_t \<Rightarrow> bool" where
  "is_chip_id_read x = (x = (ucast (drop_bit 16 (HOSTCMD_READ OR REG_CHIP_ID)),
                            ucast (drop_bit 8 (HOSTCMD_READ OR REG_CHIP_ID)),
                            ucast (HOSTCMD_READ OR REG_CHIP_ID)))"

text \<open>
  A run of events is clean when it does not continue a transaction that was
  open before it and starts no read of the chip identifier register. A
  transport extends another cleanly when it adds a clean run of events.
\<close>

fun starts_with_transfer :: "hal_event list \<Rightarrow> bool" where
  "starts_with_transfer (EvTransfer v # es) = True"
| "starts_with_transfer es = False"

definition clean :: "hal_event list \<Rightarrow> bool" where
  "clean es = (\<not> starts_with_transfer es \<and> list_all (\<lambda>x. \<not> is_chip_id_read x) (headers es))"

definition extends_clean :: "SteveHAL \<Rightarrow> SteveHAL \<Rightarrow> bool" where
  "extends_clean h h' =
     (take (length (events h)) (events h') = events h
      \<and> clean (drop (length (events h)) (events h')))"

text \<open>The header of a memory read at this address is not the chip identifier's.\<close>

definition read_header_ok :: "uint32_t \<Rightarrow> bool" where
  "read_header_ok a = (\<not> is_chip_id_read (ucast (drop_bit 16 (HOSTCMD_READ OR a)),
                                          ucast (drop_bit 8 (HOSTCMD_READ OR a)),
                                          ucast (HOSTCMD_READ OR a)))"

section \<open>Transports and states for concrete runs\<close>

text \<open>A transport that answers the given bytes, in order, and zeros afterwards.\<close>

definition scripted_hal :: "uint8_t list \<Rightarrow> SteveHAL" where
  "scripted_hal bs = \<lparr>events = [], rx = (\<lambda>n. if n < length bs then bs ! n else 0), transfers = 0\<rparr>"

text \<open>A transport that answers \<open>0x7C\<close> to every transfer.\<close>

definition chip_ready_hal :: SteveHAL where
  "chip_ready_hal = \<lparr>events = [], rx = (\<lambda>n. 0x7C), transfers = 0\<rparr>"

text \<open>
  A register read is one transaction of three header bytes and a dummy byte,
  then the data bytes. A driver whose command write index was built from \<open>w\<close>
  and whose chip answers the next 16-bit register read with \<open>r\<close>:
\<close>

definition cmd_state :: "uint16_t \<Rightarrow> uint16_t \<Rightarrow> Steve" where
  "cmd_state w r = \<lparr>m_hal = scripted_hal [0, 0, 0, 0, ucast r, ucast (drop_bit 8 r)],
                    m_cmd_index = Index CmdIndex_max w,
                    m_dl_index = Index DLIndex_max 0\<rparr>"

text \<open>
  The value read by the \<open>k\<close>-th poll of \<open>RegWait8\<close> (counted from 0) that
  starts on transport \<open>h\<close>: every poll makes five transfers and takes the
  answer to the fifth.
\<close>

definition RegWait8_read :: "SteveHAL \<Rightarrow> nat \<Rightarrow> uint8_t" where
  "RegWait8_read h k = rx h (transfers h + 5 * k + 4)"

text \<open>Appending command words with \<open>Cmd\<close>, four bytes each.\<close>

definition run_Cmds :: "uint32_t list \<Rightarrow> Steve \<Rightarrow> Steve" where
  "run_Cmds cmds st = foldl (\<lambda>s c. snd (Cmd c s)) st cmds"

text \<open>
  Two command words appended from write index 8, on a chip whose read index
  register still holds 8 when it is read afterwards.
\<close>

definition two_cmds_state :: Steve where
  "two_cmds_state =
     run_Cmds [0xFFFFFF00, 0xFFFFFF01]
       \<lparr>m_hal = \<lparr>events = [], rx = (\<lambda>n. if n = 18 then 8 else 0), transfers = 0\<rparr>,
        m_cmd_index = Index CmdIndex_max 8,
        m_dl_index = Index DLIndex_max 0\<rparr>"

text \<open>
  The profile of the CFA480128 example sketch, and a driver on a chip that
  answers \<open>0x7C\<close> to the first read of \<open>REG_ID\<close> and zero to everything
  else.
\<close>

definition cfa480128profile :: SteveDisplay where
  "cfa480128profile = SteveDisplay_new 480 24 11 6 521 128 4 1 3 1 7 1 0"

definition booted_chip_state :: Steve where
  "booted_chip_state =
     \<lparr>m_hal = \<lparr>events = [], rx = (\<lambda>n. if n = 13 then 0x7C else 0), transfers = 0\<rparr>,
      m_cmd_index = Index CmdIndex_max 0,
      m_dl_index = Index DLIndex_max 0\<rparr>"

chapter \<open>Verification\<close>

section \<open>Properties of the wrapping index\<close>

lemma uint_and_pow2_minus_1:
  fixes x :: uint16_t
  shows "uint (x AND (2 ^ k - 1)) = uint x mod 2 ^ k"
proof -
  have "x AND (2 ^ k - 1) = take_bit k x"
    by (simp only: take_bit_eq_mask mask_eq_exp_minus_1)
  then have "uint (x AND (2 ^ k - 1)) = uint (take_bit k x)"
    by (rule arg_cong)
  also have "\<dots> = take_bit k (uint x)"
    by (rule unsigned_take_bit_eq)
  also have "\<dots> = uint x mod 2 ^ k"
    by (rule take_bit_eq_mod)
  finally show ?thesis .
qed

lemma mod_65536_mod_pow2:
  fixes a :: int
  assumes "k < 16"
  shows "(a mod 65536) mod 2 ^ k = a mod 2 ^ k"
proof -
  have "(2::int) ^ k dvd 2 ^ 16"
    using assms by (intro le_imp_power_dvd) simp
  then have "(a mod 2 ^ 16) mod 2 ^ k = a mod 2 ^ k"
    by (rule mod_mod_cancel)
  then show ?thesis by simp
qed

lemma uint_Wrap:
  "uint (index (Wrap (2 ^ k) i)) = uint (index i) mod 2 ^ k"
  by (simp only: Wrap_def Index.sel uint_and_pow2_minus_1)

lemma uint_Wrap_word_of_int:
  assumes "k < 16"
  shows "uint (index (Wrap (2 ^ k) (Index_of (word_of_int a)))) = a mod 2 ^ k"
proof -
  have "uint (index (Wrap (2 ^ k) (Index_of (word_of_int a))))
          = uint (word_of_int a :: uint16_t) mod 2 ^ k"
    by (simp only: uint_Wrap Index.sel)
  also have "\<dots> = (a mod 65536) mod 2 ^ k"
    by (simp only: uint_word_of_int) simp
  finally show ?thesis
    using assms by (simp only: mod_65536_mod_pow2)
qed

lemma uint_Index:
  "uint (index (Index (2 ^ k) seed)) = uint seed mod 2 ^ k"
  by (simp only: Index_def uint_Wrap Index.sel)

lemma uint_apply_index_op:
  assumes "k < 16"
  shows "uint (index (apply_index_op (2 ^ k) i op)) = (uint (index i) + signed_delta op) mod 2 ^ k"
  using assms
  by (cases op)
    (simp_all only: apply_index_op.simps signed_delta.simps Index_add_assign_def
       Index_sub_assign_def uint_Wrap_word_of_int diff_conv_add_uminus)

text \<open>
  Started from an index that is already below the modulus, a run of operations
  ends at the wrapped sum.
\<close>

lemma uint_foldl_index_ops:
  assumes "k < 16" and "uint (index i) = a mod 2 ^ k"
  shows "uint (index (foldl (apply_index_op (2 ^ k)) i ops))
           = (a + sum_list (map signed_delta ops)) mod 2 ^ k"
  using assms(2)
proof (induction ops arbitrary: i a)
  case Nil
  then show ?case by simp
next
  case (Cons op ops)
  have "uint (index (apply_index_op (2 ^ k) i op)) = (a mod 2 ^ k + signed_delta op) mod 2 ^ k"
    using assms(1) Cons.prems by (simp only: uint_apply_index_op)
  also have "\<dots> = (a + signed_delta op) mod 2 ^ k"
    by (simp only: mod_add_left_eq)
  finally have "uint (index (foldl (apply_index_op (2 ^ k)) (apply_index_op (2 ^ k) i op) ops))
                  = (a + signed_delta op + sum_list (map signed_delta ops)) mod 2 ^ k"
    by (rule Cons.IH)
  then show ?case by (simp add: add.assoc)
qed

text \<open>
  C2. For every power-of-two modulus \<open>M = 2 ^ k\<close> that fits the 16-bit template
  argument, every seed and every finite sequence of in-place additions and
  subtractions of \<open>int16_t\<close> deltas, the value read by \<open>index()\<close> lies in
  \<open>[0, M)\<close> and equals the mathematical sum of the seed and the signed deltas
  reduced modulo \<open>M\<close>.
\<close>

theorem Index_wraps_to_sum_mod:
  assumes "k < 16"
  shows "uint (index (run_index_ops (2 ^ k) seed ops))
           = (uint seed + sum_list (map signed_delta ops)) mod 2 ^ k
         \<and> 0 \<le> uint (index (run_index_ops (2 ^ k) seed ops))
         \<and> uint (index (run_index_ops (2 ^ k) seed ops)) < 2 ^ k"
proof -
  have eq: "uint (index (run_index_ops (2 ^ k) seed ops))
              = (uint seed + sum_list (map signed_delta ops)) mod 2 ^ k"
    unfolding run_index_ops_def
    using assms uint_Index by (rule uint_foldl_index_ops)
  have "(0::int) < 2 ^ k" by simp
  then show ?thesis
    unfolding eq by simp
qed

theorem Index_wraps_to_sum_mod_witness:
  "uint (index (run_index_ops (2 ^ 12) 4090 [AddAssign 4, AddAssign 4, SubAssign 12, AddAssign (- 3)]))
     = (4090 + (4 + 4 - 12 - 3)) mod 2 ^ 12
   \<and> uint (index (run_index_ops (2 ^ 12) 4090 [AddAssign 4, AddAssign 4, SubAssign 12, AddAssign (- 3)])) = 4083"
  using Index_wraps_to_sum_mod [of 12 4090 "[AddAssign 4, AddAssign 4, SubAssign 12, AddAssign (- 3)]"]
  by simp

section \<open>Properties of SendString\<close>

lemma Send8_eq:
  "Send8 v hal = hal\<lparr>events := events hal @ [EvTransfer v], transfers := Suc (transfers hal)\<rparr>"
  by (simp add: Send8_def Transfer_def)

lemma below_maxlen_minus_1_iff:
  "below_maxlen_minus_1 w result maxlen \<longleftrightarrow> unat result < loop_bound w maxlen"
proof (cases w)
  case Int16
  then show ?thesis
    by (simp add: below_maxlen_minus_1_def loop_bound_def word_less_nat_alt)
next
  case Int32
  have "uint result < uint maxlen - 1 \<longleftrightarrow> int (unat result) < int (unat maxlen) - 1"
    by simp
  also have "\<dots> \<longleftrightarrow> unat result < unat maxlen - 1"
    by linarith
  finally show ?thesis
    using Int32 by (simp add: below_maxlen_minus_1_def loop_bound_def)
qed

lemma loop_bound_less: "loop_bound w maxlen < 65536"
proof -
  have "unat maxlen < 65536" and "unat (maxlen - 1) < 65536"
    using unsigned_less [of maxlen, where 'a = nat] unsigned_less [of "maxlen - 1", where 'a = nat]
    by simp_all
  then show ?thesis
    by (cases w) (simp_all add: loop_bound_def)
qed

lemma loop_bound_pos:
  assumes "0 < maxlen"
  shows "loop_bound w maxlen = unat maxlen - 1"
proof -
  have "maxlen \<noteq> 0" using assms by simp
  then have "unat (maxlen - 1) = unat maxlen - 1"
    by (simp add: unat_minus_one)
  then show ?thesis
    by (cases w) (simp_all add: loop_bound_def)
qed

text \<open>
  The loop sends the characters of the string one by one until the string ends
  or the counter reaches the bound, and counts them.
\<close>

lemma SendString_loop_eq:
  assumes "unat result \<le> loop_bound w maxlen"
  shows "SendString_loop w s maxlen result hal =
           (result + of_nat (min (length (c_str s)) (loop_bound w maxlen - unat result)),
            hal\<lparr>events := events hal
                   @ map EvTransfer (take (min (length (c_str s)) (loop_bound w maxlen - unat result)) s),
                transfers := transfers hal + min (length (c_str s)) (loop_bound w maxlen - unat result)\<rparr>)"
  using assms
proof (induction s arbitrary: result hal)
  case Nil
  then show ?case by (simp add: c_str_def)
next
  case (Cons c s)
  show ?case
  proof (cases "unat result < loop_bound w maxlen \<and> c \<noteq> 0")
    case False
    then show ?thesis
      using Cons.prems
      by (auto simp add: below_maxlen_minus_1_iff c_str_def)
  next
    case True
    have lt: "unat result < 65535"
      using True loop_bound_less [of w maxlen] by linarith
    have suc: "unat (result + 1) = Suc (unat result)"
      using lt by (simp add: unat_word_ariths)
    have le: "unat (result + 1) \<le> loop_bound w maxlen"
      using True suc by simp
    have n: "min (length (c_str (c # s))) (loop_bound w maxlen - unat result)
               = Suc (min (length (c_str s)) (loop_bound w maxlen - unat (result + 1)))"
    proof -
      have a: "length (c_str (c # s)) = Suc (length (c_str s))"
        using True by (simp add: c_str_def)
      have b: "loop_bound w maxlen - unat result = Suc (loop_bound w maxlen - unat (result + 1))"
        using True suc by linarith
      show ?thesis
        unfolding a b by (rule min_Suc_Suc)
    qed
    let ?n = "min (length (c_str s)) (loop_bound w maxlen - unat (result + 1))"
    have "SendString_loop w (c # s) maxlen result hal
            = SendString_loop w s maxlen (result + 1) (Send8 c hal)"
      using True by (simp add: below_maxlen_minus_1_iff)
    also have "\<dots> = (result + 1 + of_nat ?n,
                 (Send8 c hal)\<lparr>events := events (Send8 c hal) @ map EvTransfer (take ?n s),
                               transfers := transfers (Send8 c hal) + ?n\<rparr>)"
      by (rule Cons.IH [OF le])
    also have "\<dots> = (result + of_nat (Suc ?n),
                 hal\<lparr>events := events hal @ map EvTransfer (take (Suc ?n) (c # s)),
                     transfers := transfers hal + Suc ?n\<rparr>)"
      by (simp add: Send8_eq)
    finally show ?thesis
      unfolding n .
  qed
qed

lemma take_c_str:
  assumes "n \<le> length (c_str s)"
  shows "take n s = take n (c_str s)"
proof -
  have "s = c_str s @ dropWhile (\<lambda>c. c \<noteq> 0) s"
    by (simp add: c_str_def)
  then have "take n s = take n (c_str s @ dropWhile (\<lambda>c. c \<noteq> 0) s)"
    by simp
  also have "\<dots> = take n (c_str s)"
    using assms by simp
  finally show ?thesis .
qed

text \<open>What \<open>SendString\<close> does, for either width of \<open>int\<close> and any \<open>maxlen\<close>.\<close>

lemma SendString_eq:
  "SendString w (Some s) maxlen hal =
     (of_nat (min (length (c_str s)) (loop_bound w maxlen)) + 1,
      hal\<lparr>events := events hal
             @ map EvTransfer (take (min (length (c_str s)) (loop_bound w maxlen)) (c_str s) @ [0]),
          transfers := transfers hal + min (length (c_str s)) (loop_bound w maxlen) + 1\<rparr>)"
proof -
  let ?n = "min (length (c_str s)) (loop_bound w maxlen)"
  have "SendString_loop w s maxlen 0 hal =
          (0 + of_nat ?n,
           hal\<lparr>events := events hal @ map EvTransfer (take ?n s), transfers := transfers hal + ?n\<rparr>)"
    using SendString_loop_eq [of 0 w maxlen s hal] by simp
  moreover have "take ?n s = take ?n (c_str s)"
    by (rule take_c_str) simp
  ultimately show ?thesis
    by (simp add: SendString_def Send8_eq)
qed

text \<open>
  C6. For every non-null string with \<open>L\<close> characters before its terminating nul
  and every maximum length \<open>N > 0\<close>, \<open>SendString\<close> transmits exactly
  \<open>min L (N - 1) + 1\<close> bytes: the first \<open>min L (N - 1)\<close> characters of the
  string, then one zero byte. It returns that number of bytes.
\<close>

theorem SendString_truncates_and_nul_terminates:
  assumes "0 < maxlen"
  shows "events (snd (SendString w (Some s) maxlen hal))
           = events hal @ map EvTransfer (take (min (length (c_str s)) (unat maxlen - 1)) (c_str s) @ [0])
         \<and> length (take (min (length (c_str s)) (unat maxlen - 1)) (c_str s) @ [0])
             = min (length (c_str s)) (unat maxlen - 1) + 1
         \<and> transfers (snd (SendString w (Some s) maxlen hal))
             = transfers hal + min (length (c_str s)) (unat maxlen - 1) + 1
         \<and> unat (fst (SendString w (Some s) maxlen hal)) = min (length (c_str s)) (unat maxlen - 1) + 1"
proof -
  let ?n = "min (length (c_str s)) (unat maxlen - 1)"
  have b: "loop_bound w maxlen = unat maxlen - 1"
    using assms by (rule loop_bound_pos)
  have "unat maxlen < 65536"
    using unsigned_less [of maxlen, where 'a = nat] by simp
  then have small: "?n + 1 < 65536"
    by linarith
  have "(of_nat ?n + 1 :: uint16_t) = of_nat (?n + 1)"
    by (simp only: of_nat_add of_nat_1)
  then have "unat (of_nat ?n + 1 :: uint16_t) = unat (of_nat (?n + 1) :: uint16_t)"
    by (rule arg_cong)
  also have "\<dots> = ?n + 1"
    using small by (simp only: unat_of_nat) simp
  finally have ret: "unat (of_nat ?n + 1 :: uint16_t) = ?n + 1" .
  show ?thesis
    unfolding SendString_eq b using ret by simp
qed

theorem SendString_truncates_and_nul_terminates_witness:
  "(0::uint16_t) < 3
   \<and> events (snd (SendString Int32 (Some [0x48, 0x65, 0x6C, 0x6C, 0x6F]) 3 idle_hal))
       = [EvTransfer 0x48, EvTransfer 0x65, EvTransfer 0]
   \<and> unat (fst (SendString Int32 (Some [0x48, 0x65, 0x6C, 0x6C, 0x6F]) 3 idle_hal)) = 3"
  using SendString_truncates_and_nul_terminates [of 3 Int32 "[0x48, 0x65, 0x6C, 0x6C, 0x6F]" idle_hal]
  by (simp add: c_str_def idle_hal_def)

text \<open>
  C9. For every maximum length \<open>N > 0\<close>, \<open>SendString\<close> called with a \<open>NULL\<close>
  message transmits exactly one byte, of value zero, and returns 1.
\<close>

theorem SendString_NULL_sends_empty_string:
  assumes "0 < maxlen"
  shows "SendString w None maxlen hal
           = (1, hal\<lparr>events := events hal @ [EvTransfer 0], transfers := Suc (transfers hal)\<rparr>)"
  by (simp add: SendString_def Send8_eq)

theorem SendString_NULL_sends_empty_string_witness:
  "(0::uint16_t) < 16
   \<and> SendString Int16 None 16 idle_hal = (1, idle_hal\<lparr>events := [EvTransfer 0], transfers := 1\<rparr>)"
  using SendString_NULL_sends_empty_string [of 16 Int16 idle_hal]
  by (simp add: idle_hal_def)

text \<open>
  C10. The source documents that \<open>maxlen = 0\<close> stands for 65536, because
  \<open>maxlen - 1\<close> underflows to 65535. That is what happens where \<open>int\<close> has
  16 bits. Where \<open>int\<close> is wider the operands of the loop test are promoted to
  \<open>int\<close>, \<open>maxlen - 1\<close> is \<open>-1\<close>, the loop body never runs and only the
  terminating zero byte is transmitted, whatever the string.
\<close>

theorem SendString_maxlen_0_wide_int_sends_only_nul:
  "SendString Int32 (Some [0x41]) 0 idle_hal
     = (1, idle_hal\<lparr>events := [EvTransfer 0], transfers := 1\<rparr>)"
  by (simp add: SendString_def below_maxlen_minus_1_def Send8_eq idle_hal_def)

lemma SendString_maxlen_0_Int32:
  "SendString Int32 (Some s) 0 hal
     = (1, hal\<lparr>events := events hal @ [EvTransfer 0], transfers := Suc (transfers hal)\<rparr>)"
  by (simp add: SendString_eq loop_bound_def)

lemma SendString_maxlen_0_Int16:
  "events (snd (SendString Int16 (Some s) 0 hal))
     = events hal @ map EvTransfer (take (min (length (c_str s)) 65535) (c_str s) @ [0])"
proof -
  have "(- 1 :: uint16_t) = 65535" by simp
  then have "unat (- 1 :: uint16_t) = 65535"
    by (simp only: unsigned_numeral) simp
  then show ?thesis
    by (simp add: SendString_eq loop_bound_def)
qed

section \<open>What the transactions put on the wire\<close>

lemma Transfer_eq:
  "Transfer v h = (rx h (transfers h),
     h\<lparr>events := events h @ [EvTransfer v], transfers := Suc (transfers h)\<rparr>)"
  by (simp add: Transfer_def)

lemma BeginTransaction_eq:
  "BeginTransaction data24 h =
     h\<lparr>events := events h @ [EvSelect False, EvSelect True,
                              EvTransfer (ucast (drop_bit 16 data24)),
                              EvTransfer (ucast (drop_bit 8 data24)),
                              EvTransfer (ucast data24)],
       transfers := transfers h + 3\<rparr>"
  by (simp add: BeginTransaction_def EndTransaction_def Select_def emit_def Send8_eq)

lemma RegRead8_eq:
  "RegRead8 a h =
     (rx h (transfers h + 4),
      h\<lparr>events := events h @ [EvSelect False, EvSelect True,
                               EvTransfer (ucast (drop_bit 16 (HOSTCMD_READ OR a))),
                               EvTransfer (ucast (drop_bit 8 (HOSTCMD_READ OR a))),
                               EvTransfer (ucast (HOSTCMD_READ OR a)),
                               EvTransfer 0, EvTransfer 0],
        transfers := transfers h + 5\<rparr>)"
  by (simp add: RegRead8_def Receive8_def BeginMemoryTransaction_def BeginTransaction_eq
        Send8_eq Transfer_eq add.commute)

lemma RegRead16_eq:
  "RegRead16 a h =
     (ucast (rx h (transfers h + 4)) OR push_bit 8 (ucast (rx h (transfers h + 5))),
      h\<lparr>events := events h @ [EvSelect False, EvSelect True,
                               EvTransfer (ucast (drop_bit 16 (HOSTCMD_READ OR a))),
                               EvTransfer (ucast (drop_bit 8 (HOSTCMD_READ OR a))),
                               EvTransfer (ucast (HOSTCMD_READ OR a)),
                               EvTransfer 0, EvTransfer 0, EvTransfer 0],
        transfers := transfers h + 6\<rparr>)"
  by (simp add: RegRead16_def Receive16_def BeginMemoryTransaction_def BeginTransaction_eq
        Send8_eq Transfer_eq add.commute)

section \<open>RegWait8\<close>

text \<open>
  The loop decrements \<open>result\<close> before it compares, so a match found by the
  very last poll is returned as 0: the result is nonzero exactly when one of
  the polls before the last one matched.
\<close>

lemma RegWait8_loop_fst:
  "fst (RegWait8_loop a v d result h) \<noteq> 0 \<longleftrightarrow> (\<exists>k. k + 1 < unat result \<and> RegWait8_read h k = v)"
proof (induction a v d result h rule: RegWait8_loop.induct)
  case (1 a v d result h)
  show ?case
  proof (cases "result = 0")
    case True
    then show ?thesis by (simp add: RegWait8_loop.simps [of a v d 0 h])
  next
    case False
    then have pos: "0 < unat result" by (simp add: unat_gt_0)
    have m1: "unat (result - 1) = unat result - 1"
      using False by (simp add: unat_minus_one)
    let ?h1 = "snd (RegRead8 a h)"
    have rd: "fst (RegRead8 a h) = RegWait8_read h 0"
      by (simp add: RegRead8_eq RegWait8_read_def)
    have shift: "\<And>k. RegWait8_read (Delay d ?h1) k = RegWait8_read h (Suc k)"
      by (simp add: RegRead8_eq RegWait8_read_def Delay_def emit_def)
    show ?thesis
    proof (cases "RegWait8_read h 0 = v")
      case True
      have "fst (RegWait8_loop a v d result h) = result - 1"
        using False True rd
        by (subst RegWait8_loop.simps) (simp add: split_beta Let_def)
      moreover have "result - 1 \<noteq> 0 \<longleftrightarrow> 1 < unat result"
      proof -
        have "result - 1 \<noteq> 0 \<longleftrightarrow> unat (result - 1) \<noteq> 0"
          by (simp add: unat_eq_0)
        then show ?thesis using m1 pos by linarith
      qed
      moreover have "(\<exists>k. k + 1 < unat result \<and> RegWait8_read h k = v) \<longleftrightarrow> 1 < unat result"
        using True by (auto intro: exI [of _ 0])
      ultimately show ?thesis by simp
    next
      case nomatch: False
      have "fst (RegWait8_loop a v d result h)
              = fst (RegWait8_loop a v d (result - 1) (Delay d ?h1))"
        using False nomatch rd
        by (subst RegWait8_loop.simps) (simp add: split_beta Let_def)
      also have "\<dots> \<noteq> 0 \<longleftrightarrow> (\<exists>k. k + 1 < unat (result - 1) \<and> RegWait8_read (Delay d ?h1) k = v)"
      proof -
        have pr: "(fst (RegRead8 a h), ?h1) = RegRead8 a h" by simp
        have ne: "fst (RegRead8 a h) \<noteq> v" using nomatch rd by simp
        show ?thesis
          using "1.IH" [OF False refl pr refl ne] by simp
      qed
      also have "\<dots> \<longleftrightarrow> (\<exists>k. Suc k + 1 < unat result \<and> RegWait8_read h (Suc k) = v)"
      proof -
        have "\<And>k. k + 1 < unat (result - 1) \<longleftrightarrow> Suc k + 1 < unat result"
          using m1 by auto
        then show ?thesis
          by (simp only: shift)
      qed
      also have "\<dots> \<longleftrightarrow> (\<exists>k. k + 1 < unat result \<and> RegWait8_read h k = v)"
      proof
        assume "\<exists>k. Suc k + 1 < unat result \<and> RegWait8_read h (Suc k) = v"
        then show "\<exists>k. k + 1 < unat result \<and> RegWait8_read h k = v" by blast
      next
        assume "\<exists>k. k + 1 < unat result \<and> RegWait8_read h k = v"
        then obtain k where k: "k + 1 < unat result" "RegWait8_read h k = v" by blast
        have "k \<noteq> 0"
        proof
          assume "k = 0"
          with k(2) nomatch show False by simp
        qed
        then obtain j where "k = Suc j" by (cases k) auto
        with k show "\<exists>k. Suc k + 1 < unat result \<and> RegWait8_read h (Suc k) = v" by blast
      qed
      finally show ?thesis .
    qed
  qed
qed


lemma RegWait8_nonzero_iff:
  "fst (RegWait8 a v maxtries d h) \<noteq> 0
     \<longleftrightarrow> (\<exists>k. k + 1 < unat maxtries \<and> RegWait8_read h k = v)"
  unfolding RegWait8_def by (rule RegWait8_loop_fst)

text \<open>
  C3. \<open>RegWait8\<close> is specified to return a nonzero value if and only if
  one of the first \<open>maxtries\<close> reads returned the expected value. The code
  does not: with one try allowed and a register that holds the expected value
  \<open>0x7C\<close>, the first read matches and the function returns 0, the value its
  own documentation reserves for a register that did not contain the expected
  value.
\<close>

theorem RegWait8_match_on_last_try_returns_0:
  "fst (RegRead8 REG_ID chip_ready_hal) = 0x7C
   \<and> fst (RegWait8 REG_ID 0x7C 1 1 chip_ready_hal) = 0"
  by (simp add: RegWait8_def RegRead8_eq chip_ready_hal_def RegWait8_loop.simps)

section \<open>The command write index and the free space\<close>

lemma CmdIndex_max_eq: "CmdIndex_max = 2 ^ 12"
  by (simp add: CmdIndex_max_def RAM_CMD_SIZE_def)

lemma sint_mod_pow2:
  fixes r :: uint16_t
  assumes "k < 16"
  shows "sint r mod 2 ^ k = uint r mod 2 ^ k"
proof -
  have "uint r = sint r mod 2 ^ 16"
    using uint_sint [of r] by (simp add: take_bit_eq_mod)
  then have "uint r mod 2 ^ k = (sint r mod 65536) mod 2 ^ k"
    by simp
  also have "\<dots> = sint r mod 2 ^ k"
    using assms by (rule mod_65536_mod_pow2)
  finally show ?thesis by simp
qed

lemma uint_Index_minus:
  assumes "k < 16"
  shows "uint (index (Index_minus (2 ^ k) i r)) = (uint (index i) - uint r) mod 2 ^ k"
proof -
  have "uint (index (Index_minus (2 ^ k) i r))
          = (uint (index (Index (2 ^ k) (index i))) + - sint r) mod 2 ^ k"
    using assms
    by (simp only: Index_minus_def Index_sub_assign_def uint_Wrap_word_of_int diff_conv_add_uminus)
  also have "\<dots> = (uint (index i) mod 2 ^ k + - sint r) mod 2 ^ k"
    by (simp only: uint_Index)
  also have "\<dots> = (uint (index i) + - sint r) mod 2 ^ k"
    by (simp only: mod_add_left_eq)
  also have "\<dots> = (uint (index i) - sint r) mod 2 ^ k"
    by simp
  also have "\<dots> = (uint (index i) - sint r mod 2 ^ k) mod 2 ^ k"
    by (simp add: mod_diff_right_eq)
  also have "\<dots> = (uint (index i) - uint r mod 2 ^ k) mod 2 ^ k"
    using assms by (simp only: sint_mod_pow2)
  also have "\<dots> = (uint (index i) - uint r) mod 2 ^ k"
    by (simp add: mod_diff_right_eq)
  finally show ?thesis .
qed

lemma uint_Index_plus:
  assumes "k < 16"
  shows "uint (index (Index_plus (2 ^ k) i r)) = (uint (index i) + uint r) mod 2 ^ k"
proof -
  have "uint (index (Index_plus (2 ^ k) i r))
          = (uint (index (Index (2 ^ k) (index i))) + sint r) mod 2 ^ k"
    using assms
    by (simp only: Index_plus_def Index_add_assign_def uint_Wrap_word_of_int)
  also have "\<dots> = (uint (index i) mod 2 ^ k + sint r) mod 2 ^ k"
    by (simp only: uint_Index)
  also have "\<dots> = (uint (index i) + sint r) mod 2 ^ k"
    by (simp add: mod_add_left_eq)
  also have "\<dots> = (uint (index i) + sint r mod 2 ^ k) mod 2 ^ k"
    by (simp add: mod_add_right_eq)
  also have "\<dots> = (uint (index i) + uint r mod 2 ^ k) mod 2 ^ k"
    using assms by (simp only: sint_mod_pow2)
  also have "\<dots> = (uint (index i) + uint r) mod 2 ^ k"
    by (simp add: mod_add_right_eq)
  finally show ?thesis .
qed

lemma uint_free_space:
  fixes used :: uint16_t
  shows "uint (ucast ((RAM_CMD_SIZE - 4) - ucast used) :: uint16_t) = (4092 - uint used) mod 65536"
proof -
  have "uint (ucast ((RAM_CMD_SIZE - 4) - (ucast used :: uint32_t)) :: uint16_t)
          = uint ((4092 :: uint32_t) - ucast used) mod 65536"
    by (simp add: RAM_CMD_SIZE_def unsigned_ucast_eq take_bit_eq_mod)
  also have "uint ((4092 :: uint32_t) - ucast used) = (4092 - uint used) mod 2 ^ 32"
  proof -
    have "uint used < 2 ^ 16"
      using unsigned_less [of used, where 'a = int] by simp
    then have "uint used mod 2 ^ 32 = uint used"
      by simp
    then have "uint (ucast used :: uint32_t) = uint used"
      by (simp add: unsigned_ucast_eq take_bit_eq_mod)
    then show ?thesis
      by (simp add: uint_word_ariths)
  qed
  also have "((4092 - uint used) mod 2 ^ 32) mod 65536 = (4092 - uint used) mod 65536"
  proof -
    have "(65536 :: int) dvd 2 ^ 32" by simp
    then show ?thesis by (rule mod_mod_cancel)
  qed
  finally show ?thesis .
qed

lemma uint_CmdIndex_minus:
  "uint (index (Index_minus CmdIndex_max i r)) = (uint (index i) - uint r) mod 4096"
  using uint_Index_minus [of 12 i r] by (simp add: CmdIndex_max_eq)

lemma uint_CmdIndex_plus:
  "uint (index (Index_plus CmdIndex_max i r)) = (uint (index i) + uint r) mod 4096"
  using uint_Index_plus [of 12 i r] by (simp add: CmdIndex_max_eq)

lemma CmdGetFreeCmdSpace_uint:
  assumes "fst (RegRead16 REG_CMD_READ (m_hal st)) = r"
  shows "uint (fst (CmdGetFreeCmdSpace st))
           = (4092 - (uint (index (m_cmd_index st)) - uint r) mod 4096) mod 65536"
proof -
  have "fst (CmdGetFreeCmdSpace st)
          = ucast ((RAM_CMD_SIZE - 4) - ucast (index (Index_minus CmdIndex_max (m_cmd_index st) r)))"
    using assms by (simp add: CmdGetFreeCmdSpace_def split_beta Let_def)
  then show ?thesis
    by (simp only: uint_free_space uint_CmdIndex_minus)
qed

lemma uint_foldl_index_ops_mod:
  assumes "k < 16"
  shows "uint (index (foldl (apply_index_op (2 ^ k)) i ops)) mod 2 ^ k
           = (uint (index i) + sum_list (map signed_delta ops)) mod 2 ^ k"
proof (cases ops)
  case Nil
  then show ?thesis by simp
next
  case (Cons op ops')
  have "uint (index (apply_index_op (2 ^ k) i op)) = (uint (index i) + signed_delta op) mod 2 ^ k"
    using assms by (rule uint_apply_index_op)
  with assms have "uint (index (foldl (apply_index_op (2 ^ k)) (apply_index_op (2 ^ k) i op) ops'))
          = (uint (index i) + signed_delta op + sum_list (map signed_delta ops')) mod 2 ^ k"
    by (rule uint_foldl_index_ops)
  then show ?thesis
    using Cons by (simp add: add.assoc)
qed

lemma m_cmd_index_run_Cmds:
  "m_cmd_index (run_Cmds cmds st)
     = foldl (apply_index_op (2 ^ 12)) (m_cmd_index st) (map (\<lambda>c. AddAssign 4) cmds)"
  unfolding run_Cmds_def
proof (induction cmds arbitrary: st)
  case Nil
  show ?case by simp
next
  case (Cons c cmds)
  have "m_cmd_index (snd (Cmd c st)) = apply_index_op (2 ^ 12) (m_cmd_index st) (AddAssign 4)"
    by (simp add: Cmd_def Let_def CmdIndex_max_eq)
  then show ?case
    using Cons.IH [of "snd (Cmd c st)"] by simp
qed

lemma uint_m_cmd_index_run_Cmds:
  "uint (index (m_cmd_index (run_Cmds cmds st))) mod 4096
     = (uint (index (m_cmd_index st)) + 4 * int (length cmds)) mod 4096"
proof -
  have s: "sum_list (map signed_delta (map (\<lambda>c. AddAssign 4) cmds)) = 4 * int (length cmds)"
    by (induction cmds) simp_all
  show ?thesis
    using uint_foldl_index_ops_mod [of 12 "m_cmd_index st" "map (\<lambda>c. AddAssign 4) cmds"]
    unfolding m_cmd_index_run_Cmds s by simp
qed

lemma RegRead16_cmd_state:
  "fst (RegRead16 REG_CMD_READ (m_hal (cmd_state w r))) = ucast (ucast r :: uint8_t) OR push_bit 8 (ucast (ucast (drop_bit 8 r) :: uint8_t))"
  by (simp add: cmd_state_def scripted_hal_def RegRead16_eq)

lemma RegRead16_cmd_state_values:
  "fst (RegRead16 REG_CMD_READ (m_hal (cmd_state 4092 0x0FFF))) = 0x0FFF"
  "fst (RegRead16 REG_CMD_READ (m_hal (cmd_state 16 16))) = 16"
  "fst (RegRead16 REG_CMD_READ (m_hal (cmd_state 16 8))) = 8"
  by (simp_all add: cmd_state_def scripted_hal_def RegRead16_eq)

lemma index_cmd_state_values:
  "index (m_cmd_index (cmd_state 4092 r)) = 4092"
  "index (m_cmd_index (cmd_state 16 r)) = 16"
  by (simp_all add: cmd_state_def Index_def Wrap_def CmdIndex_max_eq)

lemma Send32_eq:
  "Send32 v h =
     h\<lparr>events := events h @ [EvTransfer (ucast v), EvTransfer (ucast (drop_bit 8 v)),
                              EvTransfer (ucast (drop_bit 16 v)), EvTransfer (ucast (drop_bit 24 v))],
       transfers := transfers h + 4\<rparr>"
  by (simp add: Send32_def Send8_eq)

lemma Send16_eq:
  "Send16 v h =
     h\<lparr>events := events h @ [EvTransfer (ucast v), EvTransfer (ucast (drop_bit 8 v))],
       transfers := transfers h + 2\<rparr>"
  by (simp add: Send16_def Send8_eq)


text \<open>
  C1, as the code has it. The used space is \<open>(w - r) mod 4096\<close> and the
  function returns \<open>4092\<close> minus the used space in unsigned 16-bit arithmetic:
  the difference itself whenever the used space is at most 4092 (always so
  when both indices are multiples of 4), and 65536 more than the difference
  for the used spaces 4093, 4094 and 4095. Starting from \<open>w = r\<close> and
  appending \<open>K\<close> bytes with \<open>Cmd\<close> while the read index stays \<open>r\<close>, the free
  space is \<open>(4092 - K) mod 4096\<close> for every \<open>K < 4092\<close>.
\<close>

theorem CmdGetFreeCmdSpace_value:
  assumes "fst (RegRead16 REG_CMD_READ (m_hal st)) = r" and "r < 4096"
  shows "uint (fst (CmdGetFreeCmdSpace st))
           = (4092 - (uint (index (m_cmd_index st)) - uint r) mod 4096) mod 65536
         \<and> ((uint (index (m_cmd_index st)) - uint r) mod 4096 \<le> 4092 \<longrightarrow>
              uint (fst (CmdGetFreeCmdSpace st))
                = 4092 - (uint (index (m_cmd_index st)) - uint r) mod 4096)
         \<and> (\<forall>cmds st0. st = run_Cmds cmds st0 \<and> index (m_cmd_index st0) = r
                \<and> 4 * length cmds < 4092 \<longrightarrow>
              uint (fst (CmdGetFreeCmdSpace st)) = (4092 - 4 * int (length cmds)) mod 4096)"
proof -
  let ?used = "(uint (index (m_cmd_index st)) - uint r) mod 4096"
  have val: "uint (fst (CmdGetFreeCmdSpace st)) = (4092 - ?used) mod 65536"
    using assms(1) by (rule CmdGetFreeCmdSpace_uint)
  have nonneg: "0 \<le> ?used" by simp
  have exact: "uint (fst (CmdGetFreeCmdSpace st)) = 4092 - ?used" if "?used \<le> 4092"
    using that nonneg unfolding val by simp
  have appended: "uint (fst (CmdGetFreeCmdSpace st)) = (4092 - 4 * int (length cmds)) mod 4096"
    if st: "st = run_Cmds cmds st0" and w: "index (m_cmd_index st0) = r"
      and K: "4 * length cmds < 4092" for cmds st0
  proof -
    have "?used = (uint (index (m_cmd_index st)) mod 4096 - uint r) mod 4096"
      by (simp add: mod_diff_left_eq)
    also have "\<dots> = ((uint r + 4 * int (length cmds)) mod 4096 - uint r) mod 4096"
      unfolding st uint_m_cmd_index_run_Cmds w ..
    also have "\<dots> = (uint r + 4 * int (length cmds) - uint r) mod 4096"
      by (simp only: mod_diff_left_eq)
    also have "\<dots> = 4 * int (length cmds)"
      using K by simp
    finally have used: "?used = 4 * int (length cmds)" .
    have "uint (fst (CmdGetFreeCmdSpace st)) = 4092 - 4 * int (length cmds)"
      using exact K unfolding used by simp
    also have "\<dots> = (4092 - 4 * int (length cmds)) mod 4096"
      using K by simp
    finally show ?thesis .
  qed
  show ?thesis
    using val exact appended by blast
qed

theorem CmdGetFreeCmdSpace_value_witness:
  "fst (RegRead16 REG_CMD_READ (m_hal two_cmds_state)) = 8
   \<and> (8 :: uint16_t) < 4096
   \<and> uint (fst (CmdGetFreeCmdSpace two_cmds_state)) = 4084"
proof -
  let ?st0 = "\<lparr>m_hal = \<lparr>events = [], rx = (\<lambda>n. if n = 18 then 8 else 0), transfers = 0\<rparr>,
        m_cmd_index = Index CmdIndex_max 8,
        m_dl_index = Index DLIndex_max 0\<rparr>"
  have r: "fst (RegRead16 REG_CMD_READ (m_hal two_cmds_state)) = 8"
    by (simp add: two_cmds_state_def run_Cmds_def Cmd_def Let_def RegRead16_eq Send32_eq
          BeginMemoryTransaction_def BeginTransaction_eq)
  have lt: "(8 :: uint16_t) < 4096" by simp
  have w: "index (m_cmd_index ?st0) = 8"
    by (simp add: Index_def Wrap_def CmdIndex_max_eq)
  have pre: "two_cmds_state = run_Cmds [0xFFFFFF00, 0xFFFFFF01] ?st0
               \<and> index (m_cmd_index ?st0) = 8
               \<and> 4 * length [0xFFFFFF00, 0xFFFFFF01 :: uint32_t] < 4092"
    using w by (simp add: two_cmds_state_def)
  have "\<forall>cmds st0. two_cmds_state = run_Cmds cmds st0 \<and> index (m_cmd_index st0) = 8
            \<and> 4 * length cmds < 4092 \<longrightarrow>
          uint (fst (CmdGetFreeCmdSpace two_cmds_state)) = (4092 - 4 * int (length cmds)) mod 4096"
    using CmdGetFreeCmdSpace_value [OF r lt] by (elim conjE)
  then have "uint (fst (CmdGetFreeCmdSpace two_cmds_state))
               = (4092 - 4 * int (length [0xFFFFFF00, 0xFFFFFF01 :: uint32_t])) mod 4096"
    using pre by (elim allE [of _ "[0xFFFFFF00, 0xFFFFFF01]"] allE [of _ ?st0] impE)
  then show ?thesis using r lt by simp
qed


text \<open>
  C1 as stated fails where the used space exceeds 4092. With the write index at
  4092 and the read index register holding the error value \<open>0x0FFF\<close>, the
  used space is 4093; the stated formula gives \<open>-1\<close> and the function
  returns 65535.
\<close>

theorem CmdGetFreeCmdSpace_counterexample:
  "fst (RegRead16 REG_CMD_READ (m_hal (cmd_state 4092 0x0FFF))) = 0x0FFF
   \<and> index (m_cmd_index (cmd_state 4092 0x0FFF)) = 4092
   \<and> uint (fst (CmdGetFreeCmdSpace (cmd_state 4092 0x0FFF))) = 65535
   \<and> uint (fst (CmdGetFreeCmdSpace (cmd_state 4092 0x0FFF)))
       \<noteq> 4092 - (uint (index (m_cmd_index (cmd_state 4092 0x0FFF))) - uint (0x0FFF :: uint16_t)) mod 4096"
proof -
  have r: "fst (RegRead16 REG_CMD_READ (m_hal (cmd_state 4092 0x0FFF))) = 0x0FFF"
    by (rule RegRead16_cmd_state_values(1))
  have w: "index (m_cmd_index (cmd_state 4092 0x0FFF)) = 4092"
    by (rule index_cmd_state_values(1))
  have "uint (fst (CmdGetFreeCmdSpace (cmd_state 4092 0x0FFF)))
          = (4092 - (uint (4092 :: uint16_t) - uint (0x0FFF :: uint16_t)) mod 4096) mod 65536"
    using CmdGetFreeCmdSpace_uint [OF r] unfolding w .
  then have v: "uint (fst (CmdGetFreeCmdSpace (cmd_state 4092 0x0FFF))) = 65535"
    by simp
  show ?thesis
    using r w v by simp
qed

section \<open>CmdIsBusy\<close>

text \<open>
  C4. With \<open>ri\<close> the value read from the command read pointer register and
  \<open>w\<close> the local write index: the error flag is stored as true exactly when
  \<open>ri\<close> is \<open>0x0FFF\<close> (and nothing is stored without a pointer); the function
  returns false when \<open>ri\<close> is \<open>0x0FFF\<close>, whatever \<open>w\<close> is, false when
  \<open>ri = w\<close>, and true when \<open>ri\<close> differs from \<open>w\<close> and from \<open>0x0FFF\<close>.
\<close>

theorem CmdIsBusy_cases:
  assumes "fst (RegRead16 REG_CMD_READ (m_hal st)) = ri"
  shows "snd (fst (CmdIsBusy True st)) = Some (ri = 0x0FFF)
         \<and> snd (fst (CmdIsBusy False st)) = None
         \<and> (ri = 0x0FFF \<longrightarrow> \<not> fst (fst (CmdIsBusy pError st)))
         \<and> (ri = index (m_cmd_index st) \<longrightarrow> \<not> fst (fst (CmdIsBusy pError st)))
         \<and> (ri \<noteq> index (m_cmd_index st) \<and> ri \<noteq> 0x0FFF \<longrightarrow> fst (fst (CmdIsBusy pError st)))"
  using assms by (simp add: CmdIsBusy_def split_beta Let_def READ_INDEX_ERROR_def)

theorem CmdIsBusy_cases_witness:
  "fst (CmdIsBusy True (cmd_state 4092 0x0FFF)) = (False, Some True)
   \<and> fst (CmdIsBusy True (cmd_state 16 16)) = (False, Some False)
   \<and> fst (CmdIsBusy True (cmd_state 16 8)) = (True, Some False)
   \<and> fst (CmdIsBusy False (cmd_state 16 8)) = (True, None)"
  using CmdIsBusy_cases [OF RegRead16_cmd_state_values(1), of True]
    CmdIsBusy_cases [OF RegRead16_cmd_state_values(2), of True]
    CmdIsBusy_cases [OF RegRead16_cmd_state_values(3), of True]
    CmdIsBusy_cases [OF RegRead16_cmd_state_values(3), of False]
  by (simp add: index_cmd_state_values prod_eq_iff)

section \<open>SteveDisplay\<close>

text \<open>
  C5, as the code has it. Every timing value is the sum of its parts, kept in
  a \<open>uint16_t\<close> field, that is modulo 65536: the cycle is front porch + sync
  width + back porch + active size + padding, the offset is front porch + sync
  width + back porch, \<open>sync0\<close> is the front porch and \<open>sync1\<close> is front
  porch + sync width, for both axes.
\<close>

theorem SteveDisplay_timing:
  "uint (hcycle (SteveDisplay_new width hfrontporch hsyncwidth hbackporch hpadding
                   height vfrontporch vsyncheight vbackporch vpadding pclk_arg pclkpol_arg swizzle_arg))
     = (uint hfrontporch + uint hsyncwidth + uint hbackporch + uint width + uint hpadding) mod 65536
   \<and> uint (hoffset (SteveDisplay_new width hfrontporch hsyncwidth hbackporch hpadding
                   height vfrontporch vsyncheight vbackporch vpadding pclk_arg pclkpol_arg swizzle_arg))
     = (uint hfrontporch + uint hsyncwidth + uint hbackporch) mod 65536
   \<and> hsync0 (SteveDisplay_new width hfrontporch hsyncwidth hbackporch hpadding
                   height vfrontporch vsyncheight vbackporch vpadding pclk_arg pclkpol_arg swizzle_arg)
     = hfrontporch
   \<and> uint (hsync1 (SteveDisplay_new width hfrontporch hsyncwidth hbackporch hpadding
                   height vfrontporch vsyncheight vbackporch vpadding pclk_arg pclkpol_arg swizzle_arg))
     = (uint hfrontporch + uint hsyncwidth) mod 65536
   \<and> uint (vcycle (SteveDisplay_new width hfrontporch hsyncwidth hbackporch hpadding
                   height vfrontporch vsyncheight vbackporch vpadding pclk_arg pclkpol_arg swizzle_arg))
     = (uint vfrontporch + uint vsyncheight + uint vbackporch + uint height + uint vpadding) mod 65536
   \<and> uint (voffset (SteveDisplay_new width hfrontporch hsyncwidth hbackporch hpadding
                   height vfrontporch vsyncheight vbackporch vpadding pclk_arg pclkpol_arg swizzle_arg))
     = (uint vfrontporch + uint vsyncheight + uint vbackporch) mod 65536
   \<and> vsync0 (SteveDisplay_new width hfrontporch hsyncwidth hbackporch hpadding
                   height vfrontporch vsyncheight vbackporch vpadding pclk_arg pclkpol_arg swizzle_arg)
     = vfrontporch
   \<and> uint (vsync1 (SteveDisplay_new width hfrontporch hsyncwidth hbackporch hpadding
                   height vfrontporch vsyncheight vbackporch vpadding pclk_arg pclkpol_arg swizzle_arg))
     = (uint vfrontporch + uint vsyncheight) mod 65536"
  by (simp only: SteveDisplay_new_def SteveDisplay.select_convs uint_word_of_int) simp

text \<open>
  The 480x128 profile with horizontal porch 24, sync 11, back porch 6 and
  padding 521: \<open>hcycle = 1042\<close>, \<open>hoffset = 41\<close>, \<open>hsync1 = 35\<close>.
\<close>

theorem SteveDisplay_timing_CFA480128:
  "uint (hcycle (SteveDisplay_new 480 24 11 6 521 128 4 1 3 1 7 1 0)) = 1042
   \<and> uint (hoffset (SteveDisplay_new 480 24 11 6 521 128 4 1 3 1 7 1 0)) = 41
   \<and> uint (hsync0 (SteveDisplay_new 480 24 11 6 521 128 4 1 3 1 7 1 0)) = 24
   \<and> uint (hsync1 (SteveDisplay_new 480 24 11 6 521 128 4 1 3 1 7 1 0)) = 35
   \<and> uint (vcycle (SteveDisplay_new 480 24 11 6 521 128 4 1 3 1 7 1 0)) = 137
   \<and> uint (voffset (SteveDisplay_new 480 24 11 6 521 128 4 1 3 1 7 1 0)) = 8"
  using SteveDisplay_timing [of 480 24 11 6 521 128 4 1 3 1 7 1 0]
  by simp

text \<open>
  C5 as stated fails where a sum does not fit 16 bits: width 65535 and front
  porch 1 give \<open>hcycle = 0\<close>, not 65536.
\<close>

theorem SteveDisplay_hcycle_counterexample:
  "uint (hcycle (SteveDisplay_new 65535 1 0 0 0 128 4 1 3 1 7 1 0)) = 0
   \<and> uint (hcycle (SteveDisplay_new 65535 1 0 0 0 128 4 1 3 1 7 1 0))
       \<noteq> uint (1 :: uint16_t) + uint (0 :: uint16_t) + uint (0 :: uint16_t)
           + uint (65535 :: uint16_t) + uint (0 :: uint16_t)"
  by (simp add: SteveDisplay_new_def)

section \<open>Commands with output slots\<close>

lemma length_field_wire: "length (field_wire f) = field_bytes f"
  by (cases f) simp_all

lemma length_concat_field_wire:
  "length (concat (map field_wire fs)) = sum_list (map field_bytes fs)"
  by (induction fs) (simp_all add: length_field_wire)

lemma cmd_field_step_eq:
  "cmd_field_step ci (h, result, outs) f =
     (h\<lparr>events := events h @ map EvTransfer (field_wire f),
        transfers := transfers h + field_bytes f\<rparr>,
      result + of_nat (field_bytes f),
      outs @ [field_out ci result f])"
  by (cases f) (simp_all add: Send16_eq Send32_eq)

lemma foldl_cmd_field_step:
  "foldl (cmd_field_step ci) (h, result, outs) fs =
     (h\<lparr>events := events h @ map EvTransfer (concat (map field_wire fs)),
        transfers := transfers h + sum_list (map field_bytes fs)\<rparr>,
      result + of_nat (sum_list (map field_bytes fs)),
      outs @ field_outs ci result fs)"
proof (induction fs arbitrary: h result outs)
  case Nil
  show ?case by simp
next
  case (Cons f fs)
  show ?case
    by (simp only: foldl_Cons cmd_field_step_eq Cons.IH) (simp add: add.assoc)
qed

lemma field_outs_nth:
  assumes "k < length fs"
  shows "field_outs ci result fs ! k
           = field_out ci (result + of_nat (sum_list (map field_bytes (take k fs)))) (fs ! k)"
  using assms
proof (induction fs arbitrary: k result)
  case Nil
  then show ?case by simp
next
  case (Cons f fs)
  show ?case
  proof (cases k)
    case 0
    then show ?thesis by simp
  next
    case (Suc j)
    with Cons.prems have "j < length fs" by simp
    then show ?thesis
      using Suc by (simp add: Cons.IH add.assoc)
  qed
qed

lemma record_bytes_slot:
  assumes "k < length fs" and "fs ! k = Q4 name"
  shows "take 4 (drop (4 + sum_list (map field_bytes (take k fs))) (record_bytes enc_cmd fs)) = [0, 0, 0, 0]"
proof -
  have split: "fs = take k fs @ Q4 name # drop (Suc k) fs"
    using assms by (metis id_take_nth_drop)
  have "concat (map field_wire fs)
          = concat (map field_wire (take k fs)) @ [0, 0, 0, 0] @ concat (map field_wire (drop (Suc k) fs))"
    by (subst split) simp
  then have "drop (sum_list (map field_bytes (take k fs))) (concat (map field_wire fs))
          = [0, 0, 0, 0] @ concat (map field_wire (drop (Suc k) fs))"
    by (simp add: length_concat_field_wire)
  then show ?thesis
    by (simp add: record_bytes_def eval_nat_numeral)
qed

lemma Cmd_eq:
  "Cmd command st =
     (Index_add_assign CmdIndex_max (m_cmd_index st) 4,
      st\<lparr>m_hal := (m_hal st)\<lparr>events := events (m_hal st) @
               [EvSelect False, EvSelect True,
                EvTransfer (ucast (drop_bit 16 (HOSTCMD_WRITE OR (RAM_CMD + ucast (index (m_cmd_index st)))))),
                EvTransfer (ucast (drop_bit 8 (HOSTCMD_WRITE OR (RAM_CMD + ucast (index (m_cmd_index st)))))),
                EvTransfer (ucast (HOSTCMD_WRITE OR (RAM_CMD + ucast (index (m_cmd_index st))))),
                EvTransfer (ucast command), EvTransfer (ucast (drop_bit 8 command)),
                EvTransfer (ucast (drop_bit 16 command)), EvTransfer (ucast (drop_bit 24 command))],
             transfers := transfers (m_hal st) + 7\<rparr>,
         m_cmd_index := Index_add_assign CmdIndex_max (m_cmd_index st) 4\<rparr>)"
  by (simp add: Cmd_def Let_def Send32_eq BeginMemoryTransaction_def BeginTransaction_eq)

lemma CMD_eq:
  "CMD enc_cmd fs st =
     ((Index_add_assign CmdIndex_max (Index_add_assign CmdIndex_max (m_cmd_index st) 4)
         (of_nat (sum_list (map field_bytes fs))),
       field_outs (Index_add_assign CmdIndex_max (m_cmd_index st) 4) 0 fs),
      st\<lparr>m_hal := (m_hal st)\<lparr>events := events (m_hal st) @ cmd_transaction (m_cmd_index st)
                                   @ map EvTransfer (record_bytes enc_cmd fs),
                                transfers := transfers (m_hal st) + 7 + sum_list (map field_bytes fs)\<rparr>,
         m_cmd_index := Index_add_assign CmdIndex_max (Index_add_assign CmdIndex_max (m_cmd_index st) 4)
                           (of_nat (sum_list (map field_bytes fs)))\<rparr>)"
  by (simp add: CMD_def Cmd_eq foldl_cmd_field_step record_bytes_def cmd_transaction_def Let_def)

lemma uint_of_nat_mod_4096:
  "uint (of_nat n :: uint16_t) mod 4096 = int n mod 4096"
proof -
  have "uint (of_nat n :: uint16_t) = int n mod 65536"
    by (simp only: uint_nat unat_of_nat zmod_int) simp
  then have "uint (of_nat n :: uint16_t) mod 4096 = (int n mod 65536) mod 2 ^ 12"
    by simp
  also have "\<dots> = int n mod 2 ^ 12"
    by (rule mod_65536_mod_pow2) simp
  finally show ?thesis by simp
qed

lemma uint_CmdIndex_add_assign_4:
  "uint (index (Index_add_assign CmdIndex_max w 4)) = (uint (index w) + 4) mod 4096"
  using uint_apply_index_op [of 12 w "AddAssign 4"] by (simp add: CmdIndex_max_eq)

lemma mod_4096_plus_4_neq: "(x::int) mod 4096 \<noteq> (x + 4) mod 4096"
proof
  assume "x mod 4096 = (x + 4) mod 4096"
  then have "(4096::int) dvd x - (x + 4)"
    by (simp only: mod_eq_dvd_iff)
  then show False by simp
qed

text \<open>
  C7. In a command built by the \<open>CMD\<close> macro from \<open>V2\<close>, \<open>V4\<close> and \<open>Q4\<close>
  fields, let field \<open>k\<close> be a \<open>Q4\<close> slot with a non-null pointer. The index
  stored through the pointer is the write index at entry plus the number of
  bytes of the record sent before the slot (the four bytes of the command word
  and the bytes of the fields before it), wrapped to the command buffer; said
  from inside the macro, it is the write index after the command word plus the
  bytes of the fields sent so far. The four bytes of the record at that
  position are the reserved zeros, and the stored index is not the position
  after them.
\<close>

theorem Q4_stores_position_before_slot:
  assumes "k < length fs" and "fs ! k = Q4 True"
  shows "map_option (\<lambda>i. uint (index i)) (snd (fst (CMD enc_cmd fs st)) ! k)
           = Some ((uint (index (m_cmd_index st))
                     + int (4 + sum_list (map field_bytes (take k fs)))) mod 4096)
         \<and> map_option (\<lambda>i. uint (index i)) (snd (fst (CMD enc_cmd fs st)) ! k)
             = Some ((uint (index (fst (Cmd enc_cmd st)))
                       + int (sum_list (map field_bytes (take k fs)))) mod 4096)
         \<and> events (m_hal (snd (CMD enc_cmd fs st)))
             = events (m_hal st) @ cmd_transaction (m_cmd_index st)
                 @ map EvTransfer (record_bytes enc_cmd fs)
         \<and> take 4 (drop (4 + sum_list (map field_bytes (take k fs))) (record_bytes enc_cmd fs))
             = [0, 0, 0, 0]
         \<and> (uint (index (m_cmd_index st)) + int (4 + sum_list (map field_bytes (take k fs)))) mod 4096
             \<noteq> (uint (index (m_cmd_index st)) + int (4 + sum_list (map field_bytes (take k fs))) + 4) mod 4096"
proof -
  let ?w = "uint (index (m_cmd_index st))"
  let ?n = "sum_list (map field_bytes (take k fs))"
  let ?ci = "Index_add_assign CmdIndex_max (m_cmd_index st) 4"
  have ci: "fst (Cmd enc_cmd st) = ?ci"
    by (simp add: Cmd_eq)
  have out: "snd (fst (CMD enc_cmd fs st)) ! k = Some (Index_plus CmdIndex_max ?ci (of_nat ?n))"
    using assms by (simp add: CMD_eq field_outs_nth)
  have "uint (index (Index_plus CmdIndex_max ?ci (of_nat ?n)))
          = (uint (index ?ci) + uint (of_nat ?n :: uint16_t)) mod 4096"
    by (rule uint_CmdIndex_plus)
  also have "\<dots> = (uint (index ?ci) + uint (of_nat ?n :: uint16_t) mod 4096) mod 4096"
    by (simp only: mod_add_right_eq)
  also have "\<dots> = (uint (index ?ci) + int ?n mod 4096) mod 4096"
    by (simp only: uint_of_nat_mod_4096)
  also have "\<dots> = (uint (index ?ci) + int ?n) mod 4096"
    by (simp only: mod_add_right_eq)
  finally have val_ci: "uint (index (Index_plus CmdIndex_max ?ci (of_nat ?n)))
                          = (uint (index ?ci) + int ?n) mod 4096" .
  have "(uint (index ?ci) + int ?n) mod 4096 = ((?w + 4) mod 4096 + int ?n) mod 4096"
    by (simp only: uint_CmdIndex_add_assign_4)
  also have "\<dots> = (?w + 4 + int ?n) mod 4096"
    by (simp only: mod_add_left_eq)
  also have "\<dots> = (?w + int (4 + ?n)) mod 4096"
    by (simp add: add.assoc)
  finally have val: "uint (index (Index_plus CmdIndex_max ?ci (of_nat ?n))) = (?w + int (4 + ?n)) mod 4096"
    using val_ci by simp
  have wire: "events (m_hal (snd (CMD enc_cmd fs st)))
             = events (m_hal st) @ cmd_transaction (m_cmd_index st)
                 @ map EvTransfer (record_bytes enc_cmd fs)"
    by (simp add: CMD_eq)
  have zeros: "take 4 (drop (4 + ?n) (record_bytes enc_cmd fs)) = [0, 0, 0, 0]"
    using assms by (rule record_bytes_slot)
  have ne: "(?w + int (4 + ?n)) mod 4096 \<noteq> (?w + int (4 + ?n) + 4) mod 4096"
    by (rule mod_4096_plus_4_neq)
  show ?thesis
    unfolding ci using out val val_ci wire zeros ne by simp
qed

theorem Q4_stores_position_before_slot_witness:
  "map_option (\<lambda>i. uint (index i)) (snd (fst (cmd_MEMCRC 0x1000 256 True (cmd_state 4088 0))) ! 2) = Some 4
   \<and> map_option (\<lambda>i. uint (index i)) (snd (fst (cmd_GETPTR True (cmd_state 4088 0))) ! 0) = Some 4092
   \<and> map_option (\<lambda>i. uint (index i)) (snd (fst (cmd_CALIBRATE True (cmd_state 16 0))) ! 0) = Some 20"
  using Q4_stores_position_before_slot [of 2 "[V4 0x1000, V4 256, Q4 True]" ENC_CMD_MEMCRC "cmd_state 4088 0"]
    Q4_stores_position_before_slot [of 0 "[Q4 True]" ENC_CMD_GETPTR "cmd_state 4088 0"]
    Q4_stores_position_before_slot [of 0 "[Q4 True]" ENC_CMD_CALIBRATE "cmd_state 16 0"]
  by (simp add: cmd_MEMCRC_def cmd_GETPTR_def cmd_CALIBRATE_def cmd_state_def Index_def Wrap_def
        CmdIndex_max_eq)

section \<open>Begin and the chip identifier register\<close>

lemma header_at_append:
  assumes "\<not> starts_with_transfer ys" and "xs \<noteq> []"
  shows "header_at (xs @ ys) = header_at xs"
  using assms
  by (induction xs rule: header_at.induct; cases ys rule: starts_with_transfer.cases) simp_all

lemma headers_append:
  assumes "\<not> starts_with_transfer ys"
  shows "headers (xs @ ys) = headers xs @ headers ys"
proof (induction xs)
  case Nil
  show ?case by simp
next
  case (Cons e es)
  have "header_at ((e # es) @ ys) = header_at (e # es)"
    using assms by (rule header_at_append) simp
  then show ?case
    using Cons.IH by (simp split: option.splits)
qed

lemma starts_with_transfer_append:
  "starts_with_transfer (xs @ ys) = (if xs = [] then starts_with_transfer ys else starts_with_transfer xs)"
  by (cases xs rule: starts_with_transfer.cases) simp_all

lemma clean_Nil: "clean []"
  by (simp add: clean_def)

lemma clean_append:
  assumes "clean xs" and "clean ys"
  shows "clean (xs @ ys)"
  using assms
  by (simp add: clean_def headers_append starts_with_transfer_append)

lemma extends_cleanI:
  assumes "events h' = events h @ es" and "clean es"
  shows "extends_clean h h'"
  using assms by (simp add: extends_clean_def)

lemma extends_cleanD:
  assumes "extends_clean h h'"
  shows "events h' = events h @ drop (length (events h)) (events h')"
    and "clean (drop (length (events h)) (events h'))"
proof -
  have "take (length (events h)) (events h') = events h"
    using assms by (simp add: extends_clean_def)
  then show "events h' = events h @ drop (length (events h)) (events h')"
    by (metis append_take_drop_id)
  show "clean (drop (length (events h)) (events h'))"
    using assms by (simp add: extends_clean_def)
qed

lemma extends_clean_refl: "extends_clean h h"
  by (simp add: extends_clean_def clean_Nil)

lemma extends_clean_trans:
  assumes "extends_clean h1 h2" and "extends_clean h2 h3"
  shows "extends_clean h1 h3"
proof -
  obtain a where a: "events h2 = events h1 @ a" "clean a"
    using extends_cleanD [OF assms(1)] by blast
  obtain b where b: "events h3 = events h2 @ b" "clean b"
    using extends_cleanD [OF assms(2)] by blast
  have "events h3 = events h1 @ (a @ b)"
    using a(1) b(1) by simp
  moreover have "clean (a @ b)"
    using a(2) b(2) by (rule clean_append)
  ultimately show ?thesis
    by (rule extends_cleanI)
qed

lemma extends_emit:
  assumes "\<not> starts_with_transfer [e]"
  shows "extends_clean h (emit e h)"
proof (rule extends_cleanI)
  show "events (emit e h) = events h @ [e]"
    by (simp add: emit_def)
  show "clean [e]"
    using assms by (cases e) (simp_all add: clean_def)
qed

lemma extends_simple:
  "extends_clean h (Init b h)"
  "extends_clean h (Pause b h)"
  "extends_clean h (Power b h)"
  "extends_clean h (Select b h)"
  "extends_clean h (Delay ms h)"
  by (simp_all add: Init_def Pause_def Power_def Select_def Delay_def extends_emit)

text \<open>A transaction and the data bytes that follow it.\<close>

lemma headers_transfers:
  "headers (map EvTransfer bs) = []"
  by (induction bs) simp_all

lemma clean_transaction:
  assumes "\<not> is_chip_id_read (a, b, c)"
  shows "clean ([EvSelect False, EvSelect True, EvTransfer a, EvTransfer b, EvTransfer c]
                @ map EvTransfer bs)"
proof -
  have "headers ([EvSelect False, EvSelect True, EvTransfer a, EvTransfer b, EvTransfer c]
                @ map EvTransfer bs) = [(a, b, c)]"
    by (simp add: headers_transfers)
  then show ?thesis
    using assms by (simp add: clean_def)
qed

lemma write_header_not_chip_id:
  "\<not> is_chip_id_read (ucast (drop_bit 16 (HOSTCMD_WRITE OR a)),
                        ucast (drop_bit 8 (HOSTCMD_WRITE OR a)),
                        ucast (HOSTCMD_WRITE OR a))"
proof -
  have "bit (ucast (drop_bit 16 (HOSTCMD_WRITE OR a)) :: uint8_t) 7"
    by (simp add: bit_simps HOSTCMD_WRITE_def)
  moreover have "\<not> bit (0x0C :: uint8_t) 7"
    by simp
  ultimately have "(ucast (drop_bit 16 (HOSTCMD_WRITE OR a)) :: uint8_t) \<noteq> 0x0C"
    by metis
  then show ?thesis
    by (simp add: is_chip_id_read_def HOSTCMD_READ_def REG_CHIP_ID_def)
qed

lemma host_command_header_byte:
  fixes p :: uint8_t
  shows "(ucast (drop_bit 16 (hostcmd OR push_bit 8 (ucast p))) :: uint8_t) = ucast (drop_bit 16 hostcmd)"
  by (rule bit_word_eqI) (auto simp add: bit_simps dest: bit_imp_le_length)

lemma not_chip_id_read_first_byte:
  assumes "a \<noteq> 0x0C"
  shows "\<not> is_chip_id_read (a, b, c)"
  using assms by (simp add: is_chip_id_read_def HOSTCMD_READ_def REG_CHIP_ID_def)

lemma extends_BeginTransaction:
  assumes "\<not> is_chip_id_read (ucast (drop_bit 16 data24), ucast (drop_bit 8 data24), ucast data24)"
  shows "extends_clean h (BeginTransaction data24 h)"
proof (rule extends_cleanI)
  show "events (BeginTransaction data24 h)
          = events h @ ([EvSelect False, EvSelect True, EvTransfer (ucast (drop_bit 16 data24)),
                         EvTransfer (ucast (drop_bit 8 data24)), EvTransfer (ucast data24)]
                        @ map EvTransfer [])"
    by (simp add: BeginTransaction_eq)
  show "clean ([EvSelect False, EvSelect True, EvTransfer (ucast (drop_bit 16 data24)),
                EvTransfer (ucast (drop_bit 8 data24)), EvTransfer (ucast data24)]
               @ map EvTransfer [])"
    using assms by (rule clean_transaction)
qed

lemma extends_HostCommand:
  assumes "(ucast (drop_bit 16 hostcmd) :: uint8_t) \<noteq> 0x0C"
  shows "extends_clean h (HostCommand hostcmd p h)"
  unfolding HostCommand_def
proof (rule extends_BeginTransaction)
  have "(ucast (drop_bit 16 (hostcmd OR push_bit 8 (ucast p))) :: uint8_t) \<noteq> 0x0C"
    using assms by (subst host_command_header_byte)
  then show "\<not> is_chip_id_read (ucast (drop_bit 16 (hostcmd OR push_bit 8 (ucast p))),
                ucast (drop_bit 8 (hostcmd OR push_bit 8 (ucast p))),
                ucast (hostcmd OR push_bit 8 (ucast p)))"
    by (rule not_chip_id_read_first_byte)
qed

lemma extends_HostCommands:
  "extends_clean h (HostCommand HOSTCMD_CLKEXT p h)"
  "extends_clean h (HostCommand HOSTCMD_CLKINT p h)"
  "extends_clean h (HostCommand HOSTCMD_CLKSEL p h)"
  "extends_clean h (HostCommand HOSTCMD_ACTIVE p h)"
  "extends_clean h (HostCommand HOSTCMD_PINDRIVE p h)"
  by (rule extends_HostCommand;
      simp add: HOSTCMD_CLKEXT_def HOSTCMD_CLKINT_def HOSTCMD_CLKSEL_def HOSTCMD_ACTIVE_def
        HOSTCMD_PINDRIVE_def)+

text \<open>A memory write never starts with the header of a read.\<close>

lemma extends_write_transaction:
  assumes "events h' = events h
             @ ([EvSelect False, EvSelect True,
                 EvTransfer (ucast (drop_bit 16 (HOSTCMD_WRITE OR a))),
                 EvTransfer (ucast (drop_bit 8 (HOSTCMD_WRITE OR a))),
                 EvTransfer (ucast (HOSTCMD_WRITE OR a))] @ map EvTransfer bs)"
  shows "extends_clean h h'"
  using assms
proof (rule extends_cleanI)
  show "clean ([EvSelect False, EvSelect True,
                 EvTransfer (ucast (drop_bit 16 (HOSTCMD_WRITE OR a))),
                 EvTransfer (ucast (drop_bit 8 (HOSTCMD_WRITE OR a))),
                 EvTransfer (ucast (HOSTCMD_WRITE OR a))] @ map EvTransfer bs)"
    using write_header_not_chip_id by (rule clean_transaction)
qed

lemma extends_RegWrite8: "extends_clean h (RegWrite8 a v h)"
  by (rule extends_write_transaction [where bs = "[v]"])
     (simp add: RegWrite8_def BeginMemoryTransaction_def BeginTransaction_eq Send8_eq)

lemma extends_RegWrite16: "extends_clean h (RegWrite16 a v h)"
  by (rule extends_write_transaction [where bs = "[ucast v, ucast (drop_bit 8 v)]"])
     (simp add: RegWrite16_def BeginMemoryTransaction_def BeginTransaction_eq Send16_eq)

lemma extends_RegWrite32: "extends_clean h (RegWrite32 a v h)"
  by (rule extends_write_transaction
        [where bs = "[ucast v, ucast (drop_bit 8 v), ucast (drop_bit 16 v), ucast (drop_bit 24 v)]"])
     (simp add: RegWrite32_def BeginMemoryTransaction_def BeginTransaction_eq Send32_eq)

lemma read_header_ok_regs:
  "read_header_ok REG_ID"
  "read_header_ok REG_CPURESET"
  "read_header_ok REG_CMD_WRITE"
  "read_header_ok REG_GPIOX"
  by (simp_all add: read_header_ok_def is_chip_id_read_def HOSTCMD_READ_def REG_CHIP_ID_def
        REG_ID_def REG_CPURESET_def REG_CMD_WRITE_def REG_GPIOX_def)

lemma extends_read_transaction:
  assumes "read_header_ok a"
    and "events h' = events h
             @ ([EvSelect False, EvSelect True,
                 EvTransfer (ucast (drop_bit 16 (HOSTCMD_READ OR a))),
                 EvTransfer (ucast (drop_bit 8 (HOSTCMD_READ OR a))),
                 EvTransfer (ucast (HOSTCMD_READ OR a))] @ map EvTransfer bs)"
  shows "extends_clean h h'"
  using assms(2)
proof (rule extends_cleanI)
  show "clean ([EvSelect False, EvSelect True,
                 EvTransfer (ucast (drop_bit 16 (HOSTCMD_READ OR a))),
                 EvTransfer (ucast (drop_bit 8 (HOSTCMD_READ OR a))),
                 EvTransfer (ucast (HOSTCMD_READ OR a))] @ map EvTransfer bs)"
    using assms(1) unfolding read_header_ok_def by (rule clean_transaction)
qed

lemma extends_RegRead8:
  assumes "read_header_ok a"
  shows "extends_clean h (snd (RegRead8 a h))"
  using assms
  by (rule extends_read_transaction [where bs = "[0, 0]"]) (simp add: RegRead8_eq)

lemma extends_RegRead16:
  assumes "read_header_ok a"
  shows "extends_clean h (snd (RegRead16 a h))"
  using assms
  by (rule extends_read_transaction [where bs = "[0, 0, 0]"]) (simp add: RegRead16_eq)

lemma extends_RegWait8_loop:
  assumes "read_header_ok a"
  shows "extends_clean h (snd (RegWait8_loop a v d result h))"
  using assms
proof (induction a v d result h rule: RegWait8_loop.induct)
  case (1 a v d result h)
  note ok = \<open>read_header_ok a\<close>
  show ?case
  proof (cases "result = 0")
    case True
    then show ?thesis
      by (simp add: RegWait8_loop.simps [of a v d 0 h] extends_clean_refl)
  next
    case False
    let ?h1 = "snd (RegRead8 a h)"
    have r: "extends_clean h ?h1"
      using ok by (rule extends_RegRead8)
    show ?thesis
    proof (cases "fst (RegRead8 a h) = v")
      case True
      have "snd (RegWait8_loop a v d result h) = ?h1"
        using False True by (subst RegWait8_loop.simps) (simp add: split_beta Let_def)
      then show ?thesis using r by simp
    next
      case nomatch: False
      have eq: "snd (RegWait8_loop a v d result h)
              = snd (RegWait8_loop a v d (result - 1) (Delay d ?h1))"
        using False nomatch by (subst RegWait8_loop.simps) (simp add: split_beta Let_def)
      have pr: "(fst (RegRead8 a h), ?h1) = RegRead8 a h" by simp
      have "extends_clean (Delay d ?h1) (snd (RegWait8_loop a v d (result - 1) (Delay d ?h1)))"
        using "1.IH" [OF False refl pr refl nomatch ok] .
      moreover have "extends_clean h (Delay d ?h1)"
        using r extends_simple(5) by (rule extends_clean_trans)
      ultimately show ?thesis
        unfolding eq by (rule extends_clean_trans [rotated])
    qed
  qed
qed

lemma extends_RegWait8:
  assumes "read_header_ok a"
  shows "extends_clean h (snd (RegWait8 a v maxtries d h))"
  unfolding RegWait8_def using assms by (rule extends_RegWait8_loop)

lemma step:
  assumes "extends_clean h0 h" and "extends_clean h h'"
  shows "extends_clean h0 h'"
  using assms by (rule extends_clean_trans)

lemmas extends_steps =
  step [OF _ extends_simple(1)] step [OF _ extends_simple(2)] step [OF _ extends_simple(3)]
  step [OF _ extends_simple(4)] step [OF _ extends_simple(5)]
  step [OF _ extends_HostCommands(1)] step [OF _ extends_HostCommands(2)]
  step [OF _ extends_HostCommands(3)] step [OF _ extends_HostCommands(4)]
  step [OF _ extends_HostCommands(5)]
  step [OF _ extends_RegWrite8] step [OF _ extends_RegWrite16] step [OF _ extends_RegWrite32]
  step [OF _ extends_RegRead16 [OF read_header_ok_regs(3)]]
  step [OF _ extends_RegRead16 [OF read_header_ok_regs(4)]]

lemma extends_Begin_wake: "extends_clean h (Begin_wake profile h)"
  unfolding Begin_wake_def End_def Steve_Pause_def Let_def
  by (auto intro!: extends_steps extends_clean_refl)

lemma extends_pindrive_loop:
  assumes "extends_clean h0 h"
  shows "extends_clean h0 (pindrive_loop table h)"
  using assms
proof (induction table arbitrary: h)
  case Nil
  then show ?case by simp
next
  case (Cons p ps)
  show ?case
  proof (cases "p = 0xFF")
    case True
    then show ?thesis using Cons.prems by simp
  next
    case False
    have "extends_clean h0 (HostCommand HOSTCMD_PINDRIVE p h)"
      using Cons.prems by (rule extends_steps)
    then have "extends_clean h0 (pindrive_loop ps (HostCommand HOSTCMD_PINDRIVE p h))"
      by (rule Cons.IH)
    then show ?thesis using False by simp
  qed
qed

lemma extends_Begin_registers: "extends_clean h (Begin_registers profile h)"
  unfolding Begin_registers_def Let_def split_beta
  by (auto intro!: extends_steps extends_pindrive_loop extends_clean_refl split: option.splits)

lemma m_hal_DLAdd: "m_hal (snd (DLAdd v st)) = RegWrite32 (RAM_DL + ucast (index (m_dl_index st))) v (m_hal st)"
  by (simp add: DLAdd_def Let_def)

lemma extends_Begin_show: "extends_clean (m_hal st) (m_hal (Begin_show profile st))"
  unfolding Begin_show_def Let_def split_beta dl_CLEAR_COLOR_def dl_CLEAR_def dl_DISPLAY_def
  by (auto intro!: extends_steps extends_clean_refl simp add: m_hal_DLAdd)

lemma extends_CmdInitWriteIndex: "extends_clean (m_hal st) (m_hal (snd (CmdInitWriteIndex st)))"
  unfolding CmdInitWriteIndex_def Let_def split_beta
  by (auto intro!: extends_steps extends_clean_refl)

lemma extends_TouchInit: "extends_clean (m_hal st) (m_hal (snd (TouchInit st)))"
  unfolding TouchInit_def
  by (auto intro!: extends_steps extends_clean_refl)

lemma Begin_chip_id_any:
  assumes "chipid profile = CHIPID_ANY"
  shows "Begin_chip_id profile h = (True, h)"
  using assms by (simp add: Begin_chip_id_def)

text \<open>
  C8. When the profile's \<open>_chipid\<close> is \<open>CHIPID_ANY\<close>, no transaction that
  \<open>Begin\<close> starts on the wire is a read of \<open>REG_CHIP_ID\<close>, whatever the chip
  answers, and \<open>Begin\<close> never returns at the chip identifier mismatch.
\<close>

theorem Begin_wildcard_never_reads_chip_id:
  assumes "chipid profile = CHIPID_ANY"
  shows "list_all (\<lambda>x. \<not> is_chip_id_read x)
           (headers (drop (length (events (m_hal st))) (events (m_hal (snd (Begin profile st))))))
         \<and> fst (Begin profile st) \<noteq> ExitChipIdMismatch"
proof -
  let ?hw = "Begin_wake profile (m_hal st)"
  let ?w1 = "RegWait8 REG_ID 0x7C 250 1 ?hw"
  let ?w2 = "RegWait8 REG_CPURESET 0 250 1 (snd ?w1)"
  let ?h4 = "if frequency profile \<noteq> 0
             then RegWrite32 REG_FREQUENCY (frequency profile) (snd ?w2) else snd ?w2"
  let ?st5 = "snd (CmdInitWriteIndex (st\<lparr>m_hal := ?h4\<rparr>))"
  let ?st6 = "?st5\<lparr>m_hal := Begin_registers profile (m_hal ?st5)\<rparr>"
  let ?st7 = "snd (TouchInit ?st6)"
  let ?st8 = "Begin_show profile ?st7"
  have result: "Begin profile st =
          (if fst ?w1 = 0 then (ExitIdTimeout, st\<lparr>m_hal := snd ?w1\<rparr>)
           else if fst ?w2 = 0 then (ExitCpuResetTimeout, st\<lparr>m_hal := snd ?w2\<rparr>)
           else (ExitSuccess, ?st8))"
    using assms
    by (simp add: Begin_def Let_def split_beta Begin_chip_id_any EarlyInit_def TouchInit_def)
  have e0: "extends_clean (m_hal st) ?hw"
    by (rule extends_Begin_wake)
  have e1: "extends_clean (m_hal st) (snd ?w1)"
    using e0 extends_RegWait8 [OF read_header_ok_regs(1)] by (rule extends_clean_trans)
  have e2: "extends_clean (m_hal st) (snd ?w2)"
    using e1 extends_RegWait8 [OF read_header_ok_regs(2)] by (rule extends_clean_trans)
  have e4: "extends_clean (m_hal st) ?h4"
    using e2 by (auto intro: extends_steps)
  have "extends_clean (m_hal (st\<lparr>m_hal := ?h4\<rparr>)) (m_hal ?st5)"
    by (rule extends_CmdInitWriteIndex)
  then have "extends_clean ?h4 (m_hal ?st5)"
    by simp
  with e4 have e5: "extends_clean (m_hal st) (m_hal ?st5)"
    by (rule extends_clean_trans)
  have "extends_clean (m_hal ?st5) (m_hal ?st6)"
    using extends_Begin_registers [of "m_hal ?st5" profile] by simp
  with e5 have e6: "extends_clean (m_hal st) (m_hal ?st6)"
    by (rule extends_clean_trans)
  have e7: "extends_clean (m_hal st) (m_hal ?st7)"
    using e6 extends_TouchInit by (rule extends_clean_trans)
  have e8: "extends_clean (m_hal st) (m_hal ?st8)"
    using e7 extends_Begin_show by (rule extends_clean_trans)
  have "extends_clean (m_hal st) (m_hal (snd (Begin profile st)))"
    unfolding result using e1 e2 e8 by simp
  then have "clean (drop (length (events (m_hal st))) (events (m_hal (snd (Begin profile st)))))"
    by (rule extends_cleanD(2))
  moreover have "fst (Begin profile st) \<noteq> ExitChipIdMismatch"
    unfolding result by simp
  ultimately show ?thesis
    by (simp add: clean_def)
qed

lemma HostCommand_eq:
  "HostCommand hostcmd p h =
     h\<lparr>events := events h @ [EvSelect False, EvSelect True,
                              EvTransfer (ucast (drop_bit 16 (hostcmd OR push_bit 8 (ucast p)))),
                              EvTransfer (ucast (drop_bit 8 (hostcmd OR push_bit 8 (ucast p)))),
                              EvTransfer (ucast (hostcmd OR push_bit 8 (ucast p)))],
       transfers := transfers h + 3\<rparr>"
  by (simp add: HostCommand_def BeginTransaction_eq)

lemma Begin_wake_rx_transfers:
  "rx (Begin_wake profile h) = rx h" "transfers (Begin_wake profile h) = transfers h + 9"
  by (simp_all add: Begin_wake_def End_def Steve_Pause_def Let_def HostCommand_eq
        Init_def Pause_def Power_def Select_def Delay_def emit_def)

lemma RegWait8_first_match:
  assumes "rx h (transfers h + 4) = v" and "maxtries \<noteq> 0"
  shows "RegWait8 a v maxtries d h = (maxtries - 1, snd (RegRead8 a h))"
  unfolding RegWait8_def
  using assms by (subst RegWait8_loop.simps) (simp add: RegRead8_eq)

lemma Begin_booted_chip_succeeds:
  "fst (Begin cfa480128profile booted_chip_state) = ExitSuccess"
proof -
  let ?hw = "Begin_wake cfa480128profile (m_hal booted_chip_state)"
  let ?h1 = "snd (RegRead8 REG_ID ?hw)"
  have "rx ?hw (transfers ?hw + 4) = 0x7C"
    by (simp add: Begin_wake_rx_transfers booted_chip_state_def)
  then have w1: "RegWait8 REG_ID 0x7C 250 1 ?hw = (249, ?h1)"
    using RegWait8_first_match [of ?hw "0x7C" 250 REG_ID 1] by simp
  have "rx ?h1 (transfers ?h1 + 4) = 0"
    by (simp add: RegRead8_eq Begin_wake_rx_transfers booted_chip_state_def)
  then have w2: "RegWait8 REG_CPURESET 0 250 1 ?h1 = (249, snd (RegRead8 REG_CPURESET ?h1))"
    using RegWait8_first_match [of ?h1 0 250 REG_CPURESET 1] by simp
  have any: "chipid cfa480128profile = CHIPID_ANY"
    by (simp add: cfa480128profile_def SteveDisplay_new_def)
  show ?thesis
    by (simp add: Begin_def Let_def split_beta w1 w2 Begin_chip_id_any [OF any]
          EarlyInit_def TouchInit_def)
qed

theorem Begin_wildcard_never_reads_chip_id_witness:
  "chipid cfa480128profile = CHIPID_ANY
   \<and> fst (Begin cfa480128profile booted_chip_state) = ExitSuccess
   \<and> list_all (\<lambda>x. \<not> is_chip_id_read x)
        (headers (events (m_hal (snd (Begin cfa480128profile booted_chip_state)))))"
proof -
  have any: "chipid cfa480128profile = CHIPID_ANY"
    by (simp add: cfa480128profile_def SteveDisplay_new_def)
  have "events (m_hal booted_chip_state) = []"
    by (simp add: booted_chip_state_def)
  then show ?thesis
    using Begin_wildcard_never_reads_chip_id [OF any, of booted_chip_state]
      any Begin_booted_chip_succeeds
    by simp
qed

text \<open>The read of the chip identifier register is a transaction that \<open>headers\<close> sees.\<close>

lemma RegRead32_eq:
  "RegRead32 a h =
     (ucast (rx h (transfers h + 4)) OR push_bit 8 (ucast (rx h (transfers h + 5)))
        OR push_bit 16 (ucast (rx h (transfers h + 6))) OR push_bit 24 (ucast (rx h (transfers h + 7))),
      h\<lparr>events := events h @ [EvSelect False, EvSelect True,
                               EvTransfer (ucast (drop_bit 16 (HOSTCMD_READ OR a))),
                               EvTransfer (ucast (drop_bit 8 (HOSTCMD_READ OR a))),
                               EvTransfer (ucast (HOSTCMD_READ OR a)),
                               EvTransfer 0, EvTransfer 0, EvTransfer 0, EvTransfer 0, EvTransfer 0],
        transfers := transfers h + 8\<rparr>)"
  by (simp add: RegRead32_def Receive32_def BeginMemoryTransaction_def BeginTransaction_eq
        Send8_eq Transfer_eq add.commute)

lemma chip_id_read_is_seen:
  "headers (drop (length (events h)) (events (snd (RegRead32 REG_CHIP_ID h)))) = [(0x0C, 0, 0)]
   \<and> is_chip_id_read (0x0C, 0, 0)"
  by (simp add: RegRead32_eq is_chip_id_read_def HOSTCMD_READ_def REG_CHIP_ID_def)

text \<open>
  With an expected chip identifier in the profile, \<open>Begin\<close> does read the
  register: on the same chip, which answers zero there, the read is on the wire
  and \<open>Begin\<close> returns at the mismatch.
\<close>

lemma Begin_checked_profile_reads_chip_id:
  "fst (Begin (cfa480128profile\<lparr>chipid := CHIPID_BT817\<rparr>) booted_chip_state) = ExitChipIdMismatch
   \<and> list_ex is_chip_id_read
        (headers (events (m_hal (snd (Begin (cfa480128profile\<lparr>chipid := CHIPID_BT817\<rparr>) booted_chip_state)))))"
proof -
  let ?p = "cfa480128profile\<lparr>chipid := CHIPID_BT817\<rparr>"
  let ?hw = "Begin_wake ?p (m_hal booted_chip_state)"
  let ?h1 = "snd (RegRead8 REG_ID ?hw)"
  let ?h2 = "snd (RegRead8 REG_CPURESET ?h1)"
  have "rx ?hw (transfers ?hw + 4) = 0x7C"
    by (simp add: Begin_wake_rx_transfers booted_chip_state_def)
  then have w1: "RegWait8 REG_ID 0x7C 250 1 ?hw = (249, ?h1)"
    using RegWait8_first_match [of ?hw "0x7C" 250 REG_ID 1] by simp
  have "rx ?h1 (transfers ?h1 + 4) = 0"
    by (simp add: RegRead8_eq Begin_wake_rx_transfers booted_chip_state_def)
  then have w2: "RegWait8 REG_CPURESET 0 250 1 ?h1 = (249, ?h2)"
    using RegWait8_first_match [of ?h1 0 250 REG_CPURESET 1] by simp
  have id: "fst (RegRead32 REG_CHIP_ID ?h2) = 0"
    by (simp add: RegRead32_eq RegRead8_eq Begin_wake_rx_transfers booted_chip_state_def)
  have ne: "chipid ?p \<noteq> CHIPID_ANY"
    by (simp add: CHIPID_BT817_def CHIPID_ANY_def)
  have mismatch: "chipid ?p \<noteq> fst (RegRead32 REG_CHIP_ID ?h2)"
    unfolding id by (simp add: CHIPID_BT817_def)
  have stage: "Begin_chip_id ?p ?h2 = (False, snd (RegRead32 REG_CHIP_ID ?h2))"
    using ne mismatch by (simp only: Begin_chip_id_def split_beta Let_def if_True if_False not_False_eq_True)
  have res: "Begin ?p booted_chip_state
          = (ExitChipIdMismatch, booted_chip_state\<lparr>m_hal := snd (RegRead32 REG_CHIP_ID ?h2)\<rparr>)"
    by (simp only: Begin_def Let_def split_beta w1 w2 stage fst_conv snd_conv)
       (simp del: select_convs update_convs)
  have "events (snd (RegRead32 REG_CHIP_ID ?h2))
          = events ?h2 @ [EvSelect False, EvSelect True, EvTransfer 0x0C, EvTransfer 0, EvTransfer 0,
                          EvTransfer 0, EvTransfer 0, EvTransfer 0, EvTransfer 0, EvTransfer 0]"
    by (simp add: RegRead32_eq HOSTCMD_READ_def REG_CHIP_ID_def)
  moreover have "\<not> starts_with_transfer [EvSelect False, EvSelect True, EvTransfer 0x0C, EvTransfer 0, EvTransfer 0,
                          EvTransfer 0, EvTransfer 0, EvTransfer 0, EvTransfer 0, EvTransfer 0]"
    by simp
  ultimately have "headers (events (snd (RegRead32 REG_CHIP_ID ?h2)))
          = headers (events ?h2) @ [(0x0C, 0, 0)]"
    by (simp add: headers_append)
  moreover have "is_chip_id_read (0x0C, 0, 0)"
    by (simp add: is_chip_id_read_def HOSTCMD_READ_def REG_CHIP_ID_def)
  ultimately show ?thesis
    unfolding res by simp
qed

end
